theory Spec2Isabelle
  imports Complex_Main "HOL-Library.Word"
begin

section \<open>Data model\<close>

text \<open>
  The development embeds \<^verbatim>\<open>apps/scrapers/scrapers/base.py\<close> (class
  \<^verbatim>\<open>BaseScraper\<close>) and \<^verbatim>\<open>apps/scrapers/models.py\<close> (model
  \<^verbatim>\<open>ScrapedFile\<close>). Python \<^verbatim>\<open>bytes\<close> are lists of 8-bit words, Python
  \<^verbatim>\<open>str\<close> values are \<open>string\<close>s. Times and delays are rationals (seconds): the only
  arithmetic the source does on them is a difference of two readings of the clock and
  the product of the delay with a power of two.
\<close>

type_synonym byte = "8 word"
type_synonym bytes = "byte list"
type_synonym time = rat

text \<open>
  The model \<^verbatim>\<open>ScrapedFile\<close>: one row of the table. \<open>pk\<close> is the primary key that
  the database gives every row.
\<close>

record ScrapedFile =
  pk :: nat
  institution :: string
  original_url :: string
  file_path :: string
  file_name :: string
  file_size :: nat
  mime_type :: string
  hash_value :: string
  date_created :: time
  last_updated :: time

text \<open>The entries of \<^verbatim>\<open>self.stats['errors']\<close> and the dictionary \<^verbatim>\<open>self.stats\<close>.
  The key \<^verbatim>\<open>duration\<close> is absent until \<^verbatim>\<open>finalize\<close> sets it.\<close>

record error_entry =
  err_url :: string
  err_error :: string
  err_time :: time

record run_stats =
  start_time :: time
  end_time :: "time option"
  files_scraped :: nat
  files_failed :: nat
  total_size :: nat
  errors :: "error_entry list"
  duration :: "time option"

text \<open>
  The attributes that \<^verbatim>\<open>__init__\<close> reads from the settings;
  \<open>scraped_files_dir\<close> is \<^verbatim>\<open>settings.SCRAPED_FILES_DIR\<close>.
\<close>

record scraper =
  institution_code :: string
  request_timeout :: nat
  download_timeout :: nat
  request_delay :: rat
  max_retries :: int
  scraped_files_dir :: string

text \<open>What is mutable: the table of \<^verbatim>\<open>ScrapedFile\<close> rows, in primary-key order, and
  the scraper's \<^verbatim>\<open>self.stats\<close>.\<close>

record state =
  db :: "ScrapedFile list"
  stats :: run_stats

text \<open>\<^verbatim>\<open>__init__\<close>: the statistics of a new scraper, created at time \<open>t\<close>.\<close>

definition init_stats :: "time \<Rightarrow> run_stats" where
  "init_stats t =
     \<lparr>start_time = t, end_time = None, files_scraped = 0, files_failed = 0,
      total_size = 0, errors = [], duration = None\<rparr>"

section \<open>Exceptions, responses and the events of a call\<close>

text \<open>
  \<^verbatim>\<open>requests\<close> raises subclasses of \<^verbatim>\<open>RequestException\<close>; everything else
  (an \<^verbatim>\<open>AttributeError\<close>, an error of the storage or of the database) is an
  \<open>OtherException\<close>. The string is \<^verbatim>\<open>str(e)\<close>.
\<close>

datatype exn = RequestException string | OtherException string

fun str_exn :: "exn \<Rightarrow> string" where
  "str_exn (RequestException m) = m"
| "str_exn (OtherException m) = m"

text \<open>
  A response: its status, its reason phrase, the chunks that \<^verbatim>\<open>iter_content\<close> yields and,
  when the stream breaks after them, the message of the \<^verbatim>\<open>RequestException\<close> raised.
\<close>

record response =
  status_code :: nat
  reason :: string
  body_chunks :: "bytes list"
  body_error :: "string option"

text \<open>\<^verbatim>\<open>session.get\<close> raises a \<^verbatim>\<open>RequestException\<close> or returns a response;
  \<^verbatim>\<open>session.head\<close> raises one or returns the value of the \<^verbatim>\<open>ETag\<close> header.\<close>

datatype get_outcome = GetRaises string | GetReturns response

datatype head_outcome = HeadRaises string | HeadReturns "string option"

text \<open>
  What a call does to the outside: requests, sleeps, the download of a body (the loop
  over \<^verbatim>\<open>iter_content\<close> of a streamed response ran to its end; the number is
  that of the bytes read) and writes to the storage.
\<close>

datatype event =
    EvHead string nat
  | EvGet string nat bool
  | EvSleep rat
  | EvBody string nat
  | EvSave string bytes

section \<open>The content hasher\<close>

text \<open>
  \<^verbatim>\<open>hashlib.sha256\<close> is a library. Its object is modelled by its documented
  contract: \<^verbatim>\<open>update\<close> appends to the data fed so far and \<^verbatim>\<open>hexdigest\<close> is the
  digest of that data. The digest function itself, \<open>H\<close>, is a parameter.
\<close>

datatype hasher = Hasher bytes

definition sha256_new :: hasher where
  "sha256_new = Hasher []"

fun hash_update :: "hasher \<Rightarrow> bytes \<Rightarrow> hasher" where
  "hash_update (Hasher d) c = Hasher (d @ c)"

fun hexdigest :: "(bytes \<Rightarrow> string) \<Rightarrow> hasher \<Rightarrow> string" where
  "hexdigest H (Hasher d) = H d"

text \<open>\<^verbatim>\<open>_calculate_hash\<close>: \<^verbatim>\<open>hashlib.sha256(content).hexdigest()\<close>.\<close>

definition calculate_hash :: "(bytes \<Rightarrow> string) \<Rightarrow> bytes \<Rightarrow> string" where
  "calculate_hash H content = hexdigest H (hash_update sha256_new content)"

text \<open>
  \<^verbatim>\<open>calculate_file_hash\<close>: \<^verbatim>\<open>iter(lambda: f.read(4096), b"")\<close> reads blocks of at most
  \<open>n\<close> bytes until a read returns no byte. \<open>rest\<close> is what the file still holds.
\<close>

function read_blocks :: "nat \<Rightarrow> bytes \<Rightarrow> hasher \<Rightarrow> hasher" where
  "read_blocks n rest h =
     (if take n rest = [] then h
      else read_blocks n (drop n rest) (hash_update h (take n rest)))"
  by pat_completeness auto
termination
  by (relation "measure (\<lambda>(n, rest, h). length rest)") auto

text \<open>The file system maps a path to the content of the file; \<^verbatim>\<open>open\<close> raises when
  there is none.\<close>

definition calculate_file_hash ::
  "(bytes \<Rightarrow> string) \<Rightarrow> (string \<rightharpoonup> bytes) \<Rightarrow> string \<Rightarrow> exn + string" where
  "calculate_file_hash H fs path =
     (case fs path of
        None \<Rightarrow> Inl (OtherException ''FileNotFoundError'')
      | Some content \<Rightarrow> Inr (hexdigest H (read_blocks 4096 content sha256_new)))"

text \<open>
  The loop of \<^verbatim>\<open>download_file\<close> over \<^verbatim>\<open>response.iter_content(chunk_size=8192)\<close>:
  the accumulator is \<^verbatim>\<open>(content, hash_obj, total_size)\<close>, and an empty chunk is skipped.
\<close>

fun iter_chunks :: "bytes list \<Rightarrow> bytes \<times> hasher \<times> nat \<Rightarrow> bytes \<times> hasher \<times> nat" where
  "iter_chunks [] a = a"
| "iter_chunks (chunk # rest) (content, hash_obj, nbytes) =
     (if chunk \<noteq> []
      then iter_chunks rest (content @ chunk, hash_update hash_obj chunk, nbytes + length chunk)
      else iter_chunks rest (content, hash_obj, nbytes))"

section \<open>The transport\<close>

text \<open>Decimal digits of a natural number, as \<^verbatim>\<open>str\<close> prints them.\<close>

function str_nat :: "nat \<Rightarrow> string" where
  "str_nat n =
     (if n < 10 then [char_of (48 + n)]
      else str_nat (n div 10) @ [char_of (48 + n mod 10)])"
  by pat_completeness auto
termination
  by (relation "measure id") auto

text \<open>
  \<^verbatim>\<open>response.raise_for_status()\<close> of the library \<^verbatim>\<open>requests\<close>: a status from 400 to
  599 raises \<^verbatim>\<open>HTTPError\<close>, which is a \<^verbatim>\<open>RequestException\<close>.
\<close>

definition raise_for_status :: "string \<Rightarrow> response \<Rightarrow> string option" where
  "raise_for_status url r =
     (if 400 \<le> status_code r \<and> status_code r < 500
      then Some (str_nat (status_code r) @ '' Client Error: '' @ reason r @ '' for url: '' @ url)
      else if 500 \<le> status_code r \<and> status_code r < 600
      then Some (str_nat (status_code r) @ '' Server Error: '' @ reason r @ '' for url: '' @ url)
      else None)"

text \<open>The body of the \<^verbatim>\<open>try\<close> of \<^verbatim>\<open>_make_request\<close>, up to \<^verbatim>\<open>raise_for_status\<close>.\<close>

definition attempt_result :: "string \<Rightarrow> get_outcome \<Rightarrow> string + response" where
  "attempt_result url out =
     (case out of
        GetRaises m \<Rightarrow> Inl m
      | GetReturns r \<Rightarrow> (case raise_for_status url r of Some m \<Rightarrow> Inl m | None \<Rightarrow> Inr r))"

text \<open>
  \<^verbatim>\<open>_make_request\<close>: the loop \<^verbatim>\<open>for attempt in range(self.max_retries)\<close>, over the
  attempts that are left. \<open>net k\<close> is what the \<open>k\<close>-th \<^verbatim>\<open>session.get\<close> of the call
  does. The result is \<open>Inl m\<close> when a \<^verbatim>\<open>RequestException\<close> with message \<open>m\<close> leaves the
  function, \<open>Inr (Some r)\<close> when \<open>r\<close> is returned, and \<open>Inr None\<close> when the loop ends
  without a return and Python returns \<^verbatim>\<open>None\<close>. The second component lists the events in
  the order they happen.
\<close>

fun request_loop ::
  "scraper \<Rightarrow> (nat \<Rightarrow> get_outcome) \<Rightarrow> string \<Rightarrow> bool \<Rightarrow> nat list
     \<Rightarrow> (string + response option) \<times> event list" where
  "request_loop s net url stream [] = (Inr None, [])"
| "request_loop s net url stream (attempt # rest) =
     (let ev = EvGet url (if stream then download_timeout s else request_timeout s) stream in
      case attempt_result url (net attempt) of
        Inr r \<Rightarrow> (Inr (Some r), [ev, EvSleep (request_delay s)])
      | Inl m \<Rightarrow>
          if int attempt = max_retries s - 1 then (Inl m, [ev])
          else (case request_loop s net url stream rest of
                  (res, evs) \<Rightarrow> (res, ev # EvSleep (request_delay s * 2 ^ attempt) # evs)))"

definition make_request ::
  "scraper \<Rightarrow> (nat \<Rightarrow> get_outcome) \<Rightarrow> string \<Rightarrow> bool
     \<Rightarrow> (string + response option) \<times> event list" where
  "make_request s net url stream =
     request_loop s net url stream [0..<nat (max_retries s)]"

section \<open>File names, paths and MIME types\<close>

text \<open>
  \<^verbatim>\<open>os.path.join\<close> (POSIX): a component that starts with a slash replaces what was
  joined before it; a separator is added unless the path is empty or ends with one.
\<close>

fun path_join :: "string \<Rightarrow> string list \<Rightarrow> string" where
  "path_join path [] = path"
| "path_join path (b # rest) =
     (if b \<noteq> [] \<and> hd b = CHR ''/'' then path_join b rest
      else if path = [] \<or> last path = CHR ''/'' then path_join (path @ b) rest
      else path_join (path @ ''/'' @ b) rest)"

text \<open>\<^verbatim>\<open>str.rfind\<close> for one character: the last index where it stands, or \<open>-1\<close>.\<close>

fun rfind :: "char \<Rightarrow> string \<Rightarrow> int" where
  "rfind c [] = - 1"
| "rfind c (x # xs) =
     (let r = rfind c xs in
      if 0 \<le> r then r + 1 else if x = c then 0 else - 1)"

text \<open>
  The extension that \<^verbatim>\<open>os.path.splitext(p)[1]\<close> returns: what starts at the last dot,
  when that dot stands after the last slash and some character between the slash and
  the dot is not a dot; empty otherwise.
\<close>

definition splitext_ext :: "string \<Rightarrow> string" where
  "splitext_ext p =
     (let sepIndex = rfind CHR ''/'' p; dotIndex = rfind CHR ''.'' p in
      if dotIndex > sepIndex \<and>
         list_ex (\<lambda>i. p ! i \<noteq> CHR ''.'') [nat (sepIndex + 1)..<nat dotIndex]
      then drop (nat dotIndex) p
      else [])"

text \<open>\<^verbatim>\<open>str.lower\<close> on the ASCII letters.\<close>

definition lower_char :: "char \<Rightarrow> char" where
  "lower_char c =
     (let n = (of_char c :: nat) in if 65 \<le> n \<and> n \<le> 90 then char_of (n + 32) else c)"

definition mime_types :: "(string \<times> string) list" where
  "mime_types =
     [(''.pdf'', ''application/pdf''),
      (''.xls'', ''application/vnd.ms-excel''),
      (''.xlsx'', ''application/vnd.openxmlformats-officedocument.spreadsheetml.sheet''),
      (''.doc'', ''application/msword''),
      (''.docx'', ''application/vnd.openxmlformats-officedocument.wordprocessingml.document''),
      (''.csv'', ''text/csv''),
      (''.txt'', ''text/plain''),
      (''.html'', ''text/html''),
      (''.xml'', ''application/xml''),
      (''.json'', ''application/json''),
      (''.zip'', ''application/zip''),
      (''.rar'', ''application/x-rar-compressed'')]"

text \<open>\<^verbatim>\<open>_get_mime_type\<close>.\<close>

definition get_mime_type :: "string \<Rightarrow> string" where
  "get_mime_type fname =
     (case map_of mime_types (map lower_char (splitext_ext fname)) of
        Some m \<Rightarrow> m
      | None \<Rightarrow> ''application/octet-stream'')"

section \<open>The table of scraped files\<close>

text \<open>
  \<^verbatim>\<open>ScrapedFile.objects.filter(institution=..., original_url=...).first()\<close>: the row of
  the smallest primary key among those that match, or \<^verbatim>\<open>None\<close>.
\<close>

definition objects_filter_first :: "ScrapedFile list \<Rightarrow> string \<Rightarrow> string \<Rightarrow> ScrapedFile option" where
  "objects_filter_first rows inst url =
     find (\<lambda>r. institution r = inst \<and> original_url r = url) rows"

text \<open>\<^verbatim>\<open>existing_file.save()\<close>: an \<^verbatim>\<open>UPDATE\<close> of the row that has the primary key of
  the object.\<close>

definition objects_save :: "ScrapedFile list \<Rightarrow> ScrapedFile \<Rightarrow> ScrapedFile list" where
  "objects_save rows obj = map (\<lambda>r. if pk r = pk obj then obj else r) rows"

text \<open>\<^verbatim>\<open>ScrapedFile.objects.create(...)\<close>: an \<^verbatim>\<open>INSERT\<close> with a primary key that no row
  has.\<close>

definition next_pk :: "ScrapedFile list \<Rightarrow> nat" where
  "next_pk rows = Suc (foldr max (map pk rows) 0)"

definition objects_create :: "ScrapedFile list \<Rightarrow> ScrapedFile \<Rightarrow> ScrapedFile list" where
  "objects_create rows obj = rows @ [obj\<lparr>pk := next_pk rows\<rparr>]"

text \<open>\<^verbatim>\<open>Meta.unique_together = ('institution', 'original_url')\<close>, and the primary key.\<close>

definition unique_together :: "ScrapedFile list \<Rightarrow> bool" where
  "unique_together rows = distinct (map (\<lambda>r. (institution r, original_url r)) rows)"

definition pk_unique :: "ScrapedFile list \<Rightarrow> bool" where
  "pk_unique rows = distinct (map pk rows)"

text \<open>The pair that \<^verbatim>\<open>unique_together\<close> names.\<close>

definition key_of :: "ScrapedFile \<Rightarrow> string \<times> string" where
  "key_of r = (institution r, original_url r)"

section \<open>The environment of one call\<close>

text \<open>
  Everything a call of \<^verbatim>\<open>fetch_page\<close> or \<^verbatim>\<open>download_file\<close> gets from outside:
  \<^item> \<open>url_basename\<close>: \<^verbatim>\<open>os.path.basename(urlparse(url).path)\<close>;
  \<^item> \<open>unix_time\<close>: \<^verbatim>\<open>int(time.time())\<close>; \<open>now\<close>: \<^verbatim>\<open>datetime.now()\<close>;
  \<^item> \<open>head_result\<close>: what \<^verbatim>\<open>session.head\<close> does;
  \<^item> \<open>get_result k\<close>: what the \<open>k\<close>-th \<^verbatim>\<open>session.get\<close> of the call does;
  \<^item> \<open>storage_save\<close>: \<^verbatim>\<open>self.storage.save\<close>, which raises or returns the stored path;
  \<^item> \<open>db_write_error\<close>: the exception that a write to the table raises, if it does.
\<close>

record env =
  url_basename :: "string \<Rightarrow> string"
  unix_time :: nat
  now :: time
  head_result :: head_outcome
  get_result :: "nat \<Rightarrow> get_outcome"
  storage_save :: "string \<Rightarrow> bytes \<Rightarrow> exn + string"
  db_write_error :: "exn option"

section \<open>Fetching a page\<close>

text \<open>
  \<^verbatim>\<open>fetch_page\<close>. The parsed page is modelled by the bytes of the response. With no
  response (\<^verbatim>\<open>_make_request\<close> returned \<^verbatim>\<open>None\<close>), \<^verbatim>\<open>response.text\<close> raises an
  \<^verbatim>\<open>AttributeError\<close>, which the \<^verbatim>\<open>except\<close> clause does not catch.
\<close>

definition record_error :: "string \<Rightarrow> string \<Rightarrow> time \<Rightarrow> run_stats \<Rightarrow> run_stats" where
  "record_error url msg t st =
     st\<lparr>errors := errors st @ [\<lparr>err_url = url, err_error = msg, err_time = t\<rparr>]\<rparr>"

definition fetch_page ::
  "scraper \<Rightarrow> env \<Rightarrow> string \<Rightarrow> state \<Rightarrow> (exn + bytes option) \<times> state \<times> event list" where
  "fetch_page s e url st =
     (case make_request s (get_result e) url False of
        (Inr (Some r), evs) \<Rightarrow> (Inr (Some (concat (body_chunks r))), st, evs)
      | (Inr None, evs) \<Rightarrow>
          (Inl (OtherException ''NoneType object has no attribute text''), st, evs)
      | (Inl m, evs) \<Rightarrow>
          (Inr None, st\<lparr>stats := record_error url m (now e) (stats st)\<rparr>, evs))"

section \<open>Downloading a file\<close>

text \<open>
  The block \<^verbatim>\<open>if existing_file and not overwrite:\<close> of \<^verbatim>\<open>download_file\<close>. The result
  is \<open>Some p\<close> when the function returns \<open>p\<close> from inside the block (the \<^verbatim>\<open>ETag\<close> is
  not empty and equals the stored hash), and \<open>None\<close> when control goes on to the
  download. A \<^verbatim>\<open>RequestException\<close> of the \<^verbatim>\<open>HEAD\<close> request is passed over.
\<close>

definition etag_probe ::
  "scraper \<Rightarrow> env \<Rightarrow> string \<Rightarrow> ScrapedFile option \<Rightarrow> bool \<Rightarrow> string option \<times> event list" where
  "etag_probe s e url existing overwrite =
     (case existing of
        None \<Rightarrow> (None, [])
      | Some ex \<Rightarrow>
          if overwrite then (None, [])
          else (case head_result e of
                  HeadRaises m \<Rightarrow> (None, [EvHead url (request_timeout s)])
                | HeadReturns None \<Rightarrow> (None, [EvHead url (request_timeout s)])
                | HeadReturns (Some etag) \<Rightarrow>
                    if etag \<noteq> [] \<and> etag = hash_value ex
                    then (Some (file_path ex), [EvHead url (request_timeout s)])
                    else (None, [EvHead url (request_timeout s)])))"

text \<open>
  \<^verbatim>\<open># Create or update the database record\<close>: the branch that updates the existing row,
  the branch that creates one, and the case where neither condition holds.
\<close>

definition commit_record ::
  "scraper \<Rightarrow> env \<Rightarrow> string \<Rightarrow> string \<Rightarrow> ScrapedFile option \<Rightarrow> bool \<Rightarrow> string \<Rightarrow> string
     \<Rightarrow> nat \<Rightarrow> ScrapedFile list \<Rightarrow> exn + ScrapedFile list" where
  "commit_record s e url fname existing overwrite fpath hv nbytes rows =
     (case existing of
        Some ex \<Rightarrow>
          if overwrite \<or> hash_value ex \<noteq> hv
          then (case db_write_error e of
                  Some x \<Rightarrow> Inl x
                | None \<Rightarrow>
                    Inr (objects_save rows
                          (ex\<lparr>file_path := fpath, file_size := nbytes,
                              mime_type := get_mime_type fname, hash_value := hv,
                              last_updated := now e\<rparr>)))
          else Inr rows
      | None \<Rightarrow>
          (case db_write_error e of
             Some x \<Rightarrow> Inl x
           | None \<Rightarrow>
               Inr (objects_create rows
                     \<lparr>pk = 0, institution = institution_code s, original_url = url,
                      file_path = fpath, file_name = fname, file_size = nbytes,
                      mime_type = get_mime_type fname, hash_value = hv,
                      date_created = now e, last_updated = now e\<rparr>)))"

text \<open>
  From \<^verbatim>\<open># Save file to storage\<close> to \<^verbatim>\<open>return file_path\<close>: the write to the storage,
  the record, then the statistics. \<open>Inl x\<close> is the exception \<open>x\<close> raised on the way.
\<close>

definition store_and_commit ::
  "scraper \<Rightarrow> env \<Rightarrow> string \<Rightarrow> string \<Rightarrow> ScrapedFile option \<Rightarrow> bool \<Rightarrow> string \<Rightarrow> bytes
     \<Rightarrow> string \<Rightarrow> nat \<Rightarrow> state \<Rightarrow> (exn + string \<times> state) \<times> event list" where
  "store_and_commit s e url fname existing overwrite storage_path content hv nbytes st =
     (case storage_save e storage_path content of
        Inl x \<Rightarrow> (Inl x, [EvSave storage_path content])
      | Inr fpath \<Rightarrow>
          (case commit_record s e url fname existing overwrite fpath hv nbytes (db st) of
             Inl x \<Rightarrow> (Inl x, [EvSave storage_path content])
           | Inr rows \<Rightarrow>
               (Inr (fpath,
                     st\<lparr>db := rows,
                        stats := (stats st)\<lparr>files_scraped := files_scraped (stats st) + 1,
                                            total_size := total_size (stats st) + nbytes\<rparr>\<rparr>),
                [EvSave storage_path content])))"

text \<open>
  The body of the \<^verbatim>\<open>try\<close> of \<^verbatim>\<open>download_file\<close>. With no response
  (\<^verbatim>\<open>_make_request\<close> returned \<^verbatim>\<open>None\<close>), \<^verbatim>\<open>response.iter_content\<close> raises an
  \<^verbatim>\<open>AttributeError\<close>.
\<close>

definition download_try ::
  "(bytes \<Rightarrow> string) \<Rightarrow> scraper \<Rightarrow> env \<Rightarrow> string \<Rightarrow> string \<Rightarrow> ScrapedFile option \<Rightarrow> bool
     \<Rightarrow> state \<Rightarrow> (exn + string \<times> state) \<times> event list" where
  "download_try H s e url fname existing overwrite st =
     (case make_request s (get_result e) url True of
        (Inl m, evs) \<Rightarrow> (Inl (RequestException m), evs)
      | (Inr None, evs) \<Rightarrow>
          (Inl (OtherException ''NoneType object has no attribute iter_content''), evs)
      | (Inr (Some r), evs) \<Rightarrow>
          (let storage_path = path_join (scraped_files_dir s) [institution_code s, fname] in
           case iter_chunks (body_chunks r) ([], sha256_new, 0) of
             (content, hash_obj, nbytes) \<Rightarrow>
               (case body_error r of
                  Some m \<Rightarrow> (Inl (RequestException m), evs)
                | None \<Rightarrow>
                    (let hv = hexdigest H hash_obj in
                     case (case existing of
                             Some ex \<Rightarrow>
                               if hash_value ex = hv \<and> \<not> overwrite then Some (file_path ex)
                               else None
                           | None \<Rightarrow> None) of
                       Some p \<Rightarrow> (Inr (p, st), evs @ [EvBody url nbytes])
                     | None \<Rightarrow>
                         (case store_and_commit s e url fname existing overwrite
                                 storage_path content hv nbytes st of
                            (res, evs') \<Rightarrow> (res, evs @ EvBody url nbytes # evs'))))))"

text \<open>The file name when the caller gives none.\<close>

definition default_file_name :: "env \<Rightarrow> string \<Rightarrow> string" where
  "default_file_name e url =
     (let b = url_basename e url in
      if b = [] then ''file_'' @ str_nat (unix_time e) else b)"

text \<open>
  \<^verbatim>\<open>download_file\<close>: the value returned (\<open>None\<close> is Python's \<^verbatim>\<open>None\<close>), the state
  after the call and the events of the call. The \<^verbatim>\<open>except Exception\<close> clause turns
  every exception of the \<^verbatim>\<open>try\<close> into a count, an entry of the errors and \<^verbatim>\<open>None\<close>.
\<close>

definition download_file ::
  "(bytes \<Rightarrow> string) \<Rightarrow> scraper \<Rightarrow> env \<Rightarrow> string \<Rightarrow> string option \<Rightarrow> bool \<Rightarrow> state
     \<Rightarrow> string option \<times> state \<times> event list" where
  "download_file H s e url name overwrite st =
     (let fname = (case name of None \<Rightarrow> default_file_name e url | Some f \<Rightarrow> f);
          existing_file = objects_filter_first (db st) (institution_code s) url in
      case etag_probe s e url existing_file overwrite of
        (Some p, evs) \<Rightarrow> (Some p, st, evs)
      | (None, evs) \<Rightarrow>
          (case download_try H s e url fname existing_file overwrite st of
             (Inr (p, st'), evs') \<Rightarrow> (Some p, st', evs @ evs')
           | (Inl x, evs') \<Rightarrow>
               (None,
                st\<lparr>stats := record_error url (str_exn x) (now e)
                              ((stats st)\<lparr>files_failed := files_failed (stats st) + 1\<rparr>)\<rparr>,
                evs @ evs')))"

section \<open>Finalizing a run, and runs\<close>

text \<open>\<^verbatim>\<open>finalize\<close>; \<open>t\<close> is what \<^verbatim>\<open>datetime.now()\<close> returns in the call.\<close>

definition finalize :: "time \<Rightarrow> run_stats \<Rightarrow> run_stats" where
  "finalize t st = st\<lparr>end_time := Some t, duration := Some (t - start_time st)\<rparr>"

text \<open>
  A run of one scraper is a sequence of calls, each with its environment. A call of
  \<^verbatim>\<open>fetch_page\<close> that raises leaves the state as it was.
\<close>

datatype call = FetchPage string env | DownloadFile string "string option" bool env

fun run_call :: "(bytes \<Rightarrow> string) \<Rightarrow> scraper \<Rightarrow> call \<Rightarrow> state \<Rightarrow> state" where
  "run_call H s (FetchPage url e) st = fst (snd (fetch_page s e url st))"
| "run_call H s (DownloadFile url name overwrite e) st =
     fst (snd (download_file H s e url name overwrite st))"

fun run_calls :: "(bytes \<Rightarrow> string) \<Rightarrow> scraper \<Rightarrow> call list \<Rightarrow> state \<Rightarrow> state" where
  "run_calls H s [] st = st"
| "run_calls H s (c # cs) st = run_calls H s cs (run_call H s c st)"

text \<open>Whether a call fails: \<^verbatim>\<open>download_file\<close> returns \<^verbatim>\<open>None\<close>, or \<^verbatim>\<open>fetch_page\<close>
  does.\<close>

fun download_failed :: "(bytes \<Rightarrow> string) \<Rightarrow> scraper \<Rightarrow> call \<Rightarrow> state \<Rightarrow> bool" where
  "download_failed H s (FetchPage url e) st = False"
| "download_failed H s (DownloadFile url name overwrite e) st =
     (fst (download_file H s e url name overwrite st) = None)"

fun page_failed :: "scraper \<Rightarrow> call \<Rightarrow> state \<Rightarrow> bool" where
  "page_failed s (FetchPage url e) st = (fst (fetch_page s e url st) = Inr None)"
| "page_failed s (DownloadFile url name overwrite e) st = False"

text \<open>The number of calls of a run that fail, counted along the run.\<close>

fun count_download_failures :: "(bytes \<Rightarrow> string) \<Rightarrow> scraper \<Rightarrow> call list \<Rightarrow> state \<Rightarrow> nat" where
  "count_download_failures H s [] st = 0"
| "count_download_failures H s (c # cs) st =
     (if download_failed H s c st then 1 else 0)
       + count_download_failures H s cs (run_call H s c st)"

fun count_page_failures :: "(bytes \<Rightarrow> string) \<Rightarrow> scraper \<Rightarrow> call list \<Rightarrow> state \<Rightarrow> nat" where
  "count_page_failures H s [] st = 0"
| "count_page_failures H s (c # cs) st =
     (if page_failed s c st then 1 else 0)
       + count_page_failures H s cs (run_call H s c st)"

section \<open>Observing the events, and concrete inputs\<close>

text \<open>The requests among the events of a call, the delays slept, the bodies
  downloaded, the writes.\<close>

fun is_get :: "event \<Rightarrow> bool" where
  "is_get (EvGet u t b) = True"
| "is_get ev = False"

fun sleep_of :: "event \<Rightarrow> rat list" where
  "sleep_of (EvSleep d) = [d]"
| "sleep_of ev = []"



text \<open>
  A scraper with the defaults of \<^verbatim>\<open>__init__\<close> (\<^verbatim>\<open>REQUEST_TIMEOUT\<close> 30,
  \<^verbatim>\<open>DOWNLOAD_TIMEOUT\<close> 300, \<^verbatim>\<open>REQUEST_DELAY\<close> 1.0, \<^verbatim>\<open>MAX_RETRIES\<close> 3), and a
  response with status 404.
\<close>

definition default_scraper :: "string \<Rightarrow> string \<Rightarrow> scraper" where
  "default_scraper inst dir =
     \<lparr>institution_code = inst, request_timeout = 30, download_timeout = 300,
      request_delay = 1, max_retries = 3, scraped_files_dir = dir\<rparr>"

definition not_found :: response where
  "not_found = \<lparr>status_code = 404, reason = ''Not Found'', body_chunks = [], body_error = None\<rparr>"

text \<open>
  Concrete inputs for the examples: a stand-in for the digest function, a row of the
  table whose hash is the digest of the bytes 1, 2, 3, a response with status 200, an
  environment where the server cannot be reached, and one where the body arrives in
  two chunks and the storage cannot write.
\<close>

definition toy_digest :: "bytes \<Rightarrow> string" where
  "toy_digest bs = map (\<lambda>b. char_of (unat b)) bs"

definition stored_file :: ScrapedFile where
  "stored_file =
     \<lparr>pk = 1, institution = ''BNB'', original_url = ''u'', file_path = ''scraped/BNB/a.csv'',
      file_name = ''a.csv'', file_size = 3, mime_type = ''text/csv'',
      hash_value = toy_digest [1, 2, 3], date_created = 0, last_updated = 0\<rparr>"

definition ok_response :: "bytes list \<Rightarrow> response" where
  "ok_response cs = \<lparr>status_code = 200, reason = ''OK'', body_chunks = cs, body_error = None\<rparr>"

definition quiet_env :: env where
  "quiet_env =
     \<lparr>url_basename = (\<lambda>u. ''a.csv''), unix_time = 0, now = 7,
      head_result = HeadRaises ''unreachable'',
      get_result = (\<lambda>k. GetRaises ''timed out''),
      storage_save = (\<lambda>p c. Inr p), db_write_error = None\<rparr>"

definition full_disk_env :: env where
  "full_disk_env =
     quiet_env\<lparr>get_result := (\<lambda>k. GetReturns (ok_response [[1, 2], [3]])),
               storage_save := (\<lambda>p c. Inl (OtherException ''No space left on device''))\<rparr>"

text \<open>An environment where the probe fails and the body arrives in the chunks given.\<close>

definition ok_env :: "bytes list \<Rightarrow> env" where
  "ok_env cs = quiet_env\<lparr>get_result := (\<lambda>k. GetReturns (ok_response cs))\<rparr>"

section \<open>Properties of the content hasher\<close>

declare str_nat.simps [simp del] read_blocks.simps [simp del] path_join.simps [simp del]

lemma foldl_hash_update: "foldl hash_update (Hasher d) cs = Hasher (d @ concat cs)"
  by (induction cs arbitrary: d) simp_all

lemma read_blocks_all: "0 < n \<Longrightarrow> read_blocks n rest (Hasher d) = Hasher (d @ rest)"
proof (induction n rest "Hasher d" arbitrary: d rule: read_blocks.induct)
  case (1 n rest)
  show ?case
  proof (cases "take n rest = []")
    case True
    with 1(2) have "rest = []" by simp
    then show ?thesis by (simp add: read_blocks.simps)
  next
    case False
    have "read_blocks n rest (Hasher d) = read_blocks n (drop n rest) (Hasher (d @ take n rest))"
      using False by (subst read_blocks.simps) simp
    also have "\<dots> = Hasher ((d @ take n rest) @ drop n rest)"
      using 1(1)[of "d @ take n rest"] False 1(2) by simp
    finally show ?thesis by simp
  qed
qed

lemma iter_chunks_all:
  "iter_chunks cs (c, Hasher d, n) = (c @ concat cs, Hasher (d @ concat cs), n + length (concat cs))"
  by (induction cs arbitrary: c d n) simp_all

text \<open>
  Claim C8. For every list of chunks, whatever the boundaries between them (empty
  chunks included), feeding the chunks one by one to a new hasher gives the digest
  that \<^verbatim>\<open>_calculate_hash\<close> gives for their concatenation. The same holds for the two
  loops of the source: \<^verbatim>\<open>calculate_file_hash\<close>, which reads a file of content \<open>B\<close> in
  blocks of 4096 bytes, returns \<^verbatim>\<open>_calculate_hash(B)\<close>; and the loop of
  \<^verbatim>\<open>download_file\<close> ends with the concatenation of the chunks as content, a hasher
  whose digest is that of the concatenation, and its length as size.
\<close>

theorem digest_chunking:
  "hexdigest H (foldl hash_update sha256_new chunks) = calculate_hash H (concat chunks)
   \<and> calculate_file_hash H (fs(path \<mapsto> B)) path = Inr (calculate_hash H B)
   \<and> iter_chunks chunks ([], sha256_new, 0)
       = (concat chunks, Hasher (concat chunks), length (concat chunks))
   \<and> hexdigest H (Hasher (concat chunks)) = calculate_hash H (concat chunks)"
  by (simp add: foldl_hash_update read_blocks_all iter_chunks_all sha256_new_def
      calculate_hash_def calculate_file_hash_def)

section \<open>Finalizing twice\<close>

text \<open>
  Claim C9, as the code has it. \<^verbatim>\<open>finalize\<close> has no guard: a second call is not
  rejected, it sets \<^verbatim>\<open>end_time\<close> to the time of the second call and computes
  \<^verbatim>\<open>duration\<close> from it again, so that the result is what a single call at the second
  time would give. It is the result of the first call exactly when the clock reads
  the same time in both calls. The start time, the three counters and the errors are
  those of the statistics before the first call.
\<close>

theorem finalize_twice:
  "finalize t2 (finalize t1 st) = finalize t2 st
   \<and> end_time (finalize t2 (finalize t1 st)) = Some t2
   \<and> duration (finalize t2 (finalize t1 st)) = Some (t2 - start_time st)
   \<and> (finalize t2 (finalize t1 st) = finalize t1 st) = (t2 = t1)
   \<and> start_time (finalize t2 (finalize t1 st)) = start_time st
   \<and> files_scraped (finalize t2 (finalize t1 st)) = files_scraped st
   \<and> files_failed (finalize t2 (finalize t1 st)) = files_failed st
   \<and> total_size (finalize t2 (finalize t1 st)) = total_size st
   \<and> errors (finalize t2 (finalize t1 st)) = errors st
   \<and> finalize t2 (finalize t1 st)
       = st\<lparr>end_time := Some t2, duration := Some (t2 - start_time st)\<rparr>"
proof -
  have a: "finalize t2 (finalize t1 st) = finalize t2 st"
    by (simp add: finalize_def)
  have b: "end_time (finalize t st) = Some t" for t
    by (simp add: finalize_def)
  have c: "duration (finalize t2 st) = Some (t2 - start_time st)"
    by (simp add: finalize_def)
  have d: "(finalize t2 st = finalize t1 st) = (t2 = t1)"
  proof
    assume "finalize t2 st = finalize t1 st"
    then have "end_time (finalize t2 st) = end_time (finalize t1 st)" by simp
    then show "t2 = t1" by (simp add: b)
  qed simp
  have f: "start_time (finalize t2 st) = start_time st"
    "files_scraped (finalize t2 st) = files_scraped st"
    "files_failed (finalize t2 st) = files_failed st"
    "total_size (finalize t2 st) = total_size st"
    "errors (finalize t2 st) = errors st"
    "finalize t2 st = st\<lparr>end_time := Some t2, duration := Some (t2 - start_time st)\<rparr>"
    by (simp_all add: finalize_def)
  show ?thesis unfolding a by (simp add: b c d f(1-5) f(6)[symmetric])
qed

text \<open>
  A run started at time 0 and finalized at time 5, then again at time 9: the end time
  and the duration of the first call are replaced by those of the second.
\<close>

theorem finalize_twice_counterexample:
  "end_time (finalize 9 (finalize 5 (init_stats 0))) \<noteq> end_time (finalize 5 (init_stats 0))
   \<and> duration (finalize 9 (finalize 5 (init_stats 0))) \<noteq> duration (finalize 5 (init_stats 0))
   \<and> end_time (finalize 9 (finalize 5 (init_stats 0))) = Some 9
   \<and> duration (finalize 9 (finalize 5 (init_stats 0))) = Some 9"
  by (simp add: finalize_def init_stats_def)

section \<open>The transport: retries and backoff\<close>

text \<open>
  When every attempt left fails, the loop runs to the last attempt: each attempt but
  the last is followed by its backoff sleep, and the exception of the last one leaves
  the function.
\<close>

lemma request_loop_all_fail:
  assumes "int n = max_retries s"
    and "\<forall>j. k \<le> j \<and> j < n \<longrightarrow> isl (attempt_result url (net j))"
    and "k < n"
  shows "request_loop s net url stream [k..<n] =
           (Inl (projl (attempt_result url (net (n - 1)))),
            concat (map (\<lambda>j. [EvGet url (if stream then download_timeout s else request_timeout s) stream,
                               EvSleep (request_delay s * 2 ^ j)]) [k..<n - 1])
              @ [EvGet url (if stream then download_timeout s else request_timeout s) stream])"
  using assms(2,3)
proof (induction "n - 1 - k" arbitrary: k)
  case 0
  then have k: "k = n - 1" by simp
  with 0 have upt: "[k..<n] = [k]" by (simp add: upt_conv_Cons)
  from 0 have "isl (attempt_result url (net k))" by simp
  then obtain m where m: "attempt_result url (net k) = Inl m" by (cases "attempt_result url (net k)") auto
  have "int k = max_retries s - 1" using k assms(1) 0 by simp
  then show ?case using upt m k by simp
next
  case (Suc d)
  then have lt: "Suc k < n" and kn: "k < n - 1" by simp_all
  have upt: "[k..<n] = k # [Suc k..<n]" using Suc.prems by (simp add: upt_conv_Cons)
  have upt': "[k..<n - 1] = k # [Suc k..<n - 1]" using kn by (simp add: upt_conv_Cons)
  from Suc.prems have "isl (attempt_result url (net k))" by simp
  then obtain m where m: "attempt_result url (net k) = Inl m" by (cases "attempt_result url (net k)") auto
  have ne: "int k \<noteq> max_retries s - 1" using kn assms(1) by linarith
  have IH: "request_loop s net url stream [Suc k..<n] =
           (Inl (projl (attempt_result url (net (n - 1)))),
            concat (map (\<lambda>j. [EvGet url (if stream then download_timeout s else request_timeout s) stream,
                               EvSleep (request_delay s * 2 ^ j)]) [Suc k..<n - 1])
              @ [EvGet url (if stream then download_timeout s else request_timeout s) stream])"
    using Suc.hyps(1)[of "Suc k"] Suc.hyps(2) Suc.prems lt by simp
  show ?case
    unfolding upt upt' using m ne IH by simp
qed


lemma gets_of_failed_trace:
  "length (filter is_get (concat (map (\<lambda>j. [EvGet u t b, EvSleep (f j)]) js) @ [EvGet u t b]))
     = Suc (length js)"
  by (induction js) simp_all

lemma sleeps_of_failed_trace:
  "concat (map sleep_of (concat (map (\<lambda>j. [EvGet u t b, EvSleep (f j)]) js) @ [EvGet u t b]))
     = map f js"
  by (induction js) simp_all

lemma make_request_all_fail:
  assumes "0 < max_retries s"
    and "\<forall>k < nat (max_retries s). isl (attempt_result url (net k))"
  shows "make_request s net url stream =
           (Inl (projl (attempt_result url (net (nat (max_retries s) - 1)))),
            concat (map (\<lambda>j. [EvGet url (if stream then download_timeout s else request_timeout s) stream,
                               EvSleep (request_delay s * 2 ^ j)]) [0..<nat (max_retries s) - 1])
              @ [EvGet url (if stream then download_timeout s else request_timeout s) stream])
         \<and> length (filter is_get (snd (make_request s net url stream))) = nat (max_retries s)
         \<and> concat (map sleep_of (snd (make_request s net url stream)))
             = map (\<lambda>j. request_delay s * 2 ^ j) [0..<nat (max_retries s) - 1]"
proof -
  have n: "int (nat (max_retries s)) = max_retries s" and pos: "0 < nat (max_retries s)"
    using assms(1) by simp_all
  have eq: "make_request s net url stream =
           (Inl (projl (attempt_result url (net (nat (max_retries s) - 1)))),
            concat (map (\<lambda>j. [EvGet url (if stream then download_timeout s else request_timeout s) stream,
                               EvSleep (request_delay s * 2 ^ j)]) [0..<nat (max_retries s) - 1])
              @ [EvGet url (if stream then download_timeout s else request_timeout s) stream])"
    unfolding make_request_def
    using request_loop_all_fail[OF n _ pos, of url net stream] assms(2) by simp
  show ?thesis
    unfolding eq snd_conv gets_of_failed_trace sleeps_of_failed_trace
    using pos by simp
qed

text \<open>
  Claim C2. Let \<^verbatim>\<open>max_retries\<close> be positive and let every attempt fail with a
  \<^verbatim>\<open>RequestException\<close> (raised by \<^verbatim>\<open>session.get\<close> or by \<^verbatim>\<open>raise_for_status\<close>).
  Then \<^verbatim>\<open>_make_request\<close> makes exactly \<^verbatim>\<open>max_retries\<close> requests, sleeps
  \<^verbatim>\<open>request_delay * 2 ** attempt\<close> after each attempt but the last, in that order and
  with nothing else in between, and the exception of the last attempt leaves the
  function.
\<close>

theorem make_request_retry_bound:
  assumes "0 < max_retries s"
    and "\<forall>k < nat (max_retries s). isl (attempt_result url (net k))"
  shows "make_request s net url stream =
           (Inl (projl (attempt_result url (net (nat (max_retries s) - 1)))),
            concat (map (\<lambda>j. [EvGet url (if stream then download_timeout s else request_timeout s) stream,
                               EvSleep (request_delay s * 2 ^ j)]) [0..<nat (max_retries s) - 1])
              @ [EvGet url (if stream then download_timeout s else request_timeout s) stream])
         \<and> length (filter is_get (snd (make_request s net url stream))) = nat (max_retries s)
         \<and> concat (map sleep_of (snd (make_request s net url stream)))
             = map (\<lambda>j. request_delay s * 2 ^ j) [0..<nat (max_retries s) - 1]"
  using assms by (rule make_request_all_fail)

text \<open>The default scraper on a URL that times out every time: three requests, sleeps
  of 1 and 2 seconds between them, then the exception.\<close>

theorem make_request_retry_bound_witness:
  "make_request (default_scraper ''BNB'' ''scraped'') (\<lambda>k. GetRaises ''timed out'') ''u'' True
     = (Inl ''timed out'',
        [EvGet ''u'' 300 True, EvSleep 1, EvGet ''u'' 300 True, EvSleep 2, EvGet ''u'' 300 True])"
  using make_request_retry_bound[of "default_scraper ''BNB'' ''scraped''" "''u''"
      "\<lambda>k. GetRaises ''timed out''" True]
  by (simp add: default_scraper_def attempt_result_def upt_conv_Cons eval_nat_numeral)

lemma error_status_fails:
  "400 \<le> status_code r \<Longrightarrow> status_code r < 600 \<Longrightarrow> isl (attempt_result url (GetReturns r))"
  by (simp add: attempt_result_def raise_for_status_def)

text \<open>
  Claim C6, as the code has it. \<^verbatim>\<open>_make_request\<close> does not tell a status that is
  worth a retry from one that is not: \<^verbatim>\<open>raise_for_status\<close> raises for every status
  from 400 to 599, and the \<^verbatim>\<open>except\<close> clause treats that like any other
  \<^verbatim>\<open>RequestException\<close>. When every attempt gets such a status (404, say), the function
  makes \<^verbatim>\<open>max_retries\<close> requests with the backoff sleeps between them before it
  fails; it fails after a single request and without a sleep exactly when
  \<^verbatim>\<open>max_retries\<close> is 1.
\<close>

theorem error_status_is_retried:
  assumes "0 < max_retries s"
    and "\<forall>k < nat (max_retries s).
           \<exists>r. net k = GetReturns r \<and> 400 \<le> status_code r \<and> status_code r < 600"
  shows "isl (fst (make_request s net url stream))
         \<and> length (filter is_get (snd (make_request s net url stream))) = nat (max_retries s)
         \<and> concat (map sleep_of (snd (make_request s net url stream)))
             = map (\<lambda>j. request_delay s * 2 ^ j) [0..<nat (max_retries s) - 1]
         \<and> (snd (make_request s net url stream)
               = [EvGet url (if stream then download_timeout s else request_timeout s) stream])
             = (max_retries s = 1)"
proof -
  have fails: "\<forall>k < nat (max_retries s). isl (attempt_result url (net k))"
    using assms(2) error_status_fails by metis
  note all = make_request_all_fail[OF assms(1) fails, of stream]
  have one: "(snd (make_request s net url stream)
               = [EvGet url (if stream then download_timeout s else request_timeout s) stream])
             = (max_retries s = 1)"
  proof
    assume "snd (make_request s net url stream)
               = [EvGet url (if stream then download_timeout s else request_timeout s) stream]"
    then have "length (filter is_get (snd (make_request s net url stream))) = 1" by simp
    with all have "nat (max_retries s) = 1" by simp
    then show "max_retries s = 1" by linarith
  next
    assume "max_retries s = 1"
    with all show "snd (make_request s net url stream)
               = [EvGet url (if stream then download_timeout s else request_timeout s) stream]"
      by simp
  qed
  have f: "isl (fst (make_request s net url stream))"
    by (simp add: conjunct1[OF all])
  have g: "length (filter is_get (snd (make_request s net url stream))) = nat (max_retries s)"
    using all by blast
  have h: "concat (map sleep_of (snd (make_request s net url stream)))
             = map (\<lambda>j. request_delay s * 2 ^ j) [0..<nat (max_retries s) - 1]"
    using all by blast
  show ?thesis using f g h one by blast
qed

theorem error_status_is_retried_witness:
  "length (filter is_get (snd (make_request (default_scraper ''BNB'' ''scraped'')
      (\<lambda>k. GetReturns not_found) ''u'' False))) = 3
   \<and> concat (map sleep_of (snd (make_request (default_scraper ''BNB'' ''scraped'')
      (\<lambda>k. GetReturns not_found) ''u'' False))) = [1, 2]"
  using error_status_is_retried[of "default_scraper ''BNB'' ''scraped''"
      "\<lambda>k. GetReturns not_found" "''u''" False]
  by (simp add: default_scraper_def not_found_def upt_conv_Cons eval_nat_numeral)

text \<open>The default scraper on a URL that answers 404 every time: three requests and two
  backoff sleeps, not a single request.\<close>

theorem not_found_counterexample:
  "snd (make_request (default_scraper ''BNB'' ''scraped'') (\<lambda>k. GetReturns not_found) ''u'' False)
     = [EvGet ''u'' 30 False, EvSleep 1, EvGet ''u'' 30 False, EvSleep 2, EvGet ''u'' 30 False]"
  by (simp add: make_request_def default_scraper_def not_found_def attempt_result_def
      raise_for_status_def upt_conv_Cons eval_nat_numeral)

section \<open>Downloading: the shape of a call\<close>



lemma download_try_cases:
  "download_try H s e url fname existing overwrite st =
     (case make_request s (get_result e) url True of
        (Inl m, evs) \<Rightarrow> (Inl (RequestException m), evs)
      | (Inr None, evs) \<Rightarrow>
          (Inl (OtherException ''NoneType object has no attribute iter_content''), evs)
      | (Inr (Some r), evs) \<Rightarrow>
          (case body_error r of
             Some m \<Rightarrow> (Inl (RequestException m), evs)
           | None \<Rightarrow>
               (case existing of
                  Some ex \<Rightarrow>
                    if hash_value ex = calculate_hash H (concat (body_chunks r)) \<and> \<not> overwrite
                    then (Inr (file_path ex, st),
                          evs @ [EvBody url (length (concat (body_chunks r)))])
                    else (case store_and_commit s e url fname existing overwrite
                                 (path_join (scraped_files_dir s) [institution_code s, fname])
                                 (concat (body_chunks r))
                                 (calculate_hash H (concat (body_chunks r)))
                                 (length (concat (body_chunks r))) st of
                            (res, evs') \<Rightarrow>
                              (res, evs @ EvBody url (length (concat (body_chunks r))) # evs'))
                | None \<Rightarrow>
                    (case store_and_commit s e url fname existing overwrite
                                 (path_join (scraped_files_dir s) [institution_code s, fname])
                                 (concat (body_chunks r))
                                 (calculate_hash H (concat (body_chunks r)))
                                 (length (concat (body_chunks r))) st of
                            (res, evs') \<Rightarrow>
                              (res, evs @ EvBody url (length (concat (body_chunks r))) # evs')))))"
  unfolding download_try_def Let_def
  by (auto simp: iter_chunks_all sha256_new_def calculate_hash_def
      simp del: path_join.simps split: prod.splits sum.splits option.splits)





lemma download_try_outcome:
  "(\<exists>x evs. download_try H s e url fname existing overwrite st = (Inl x, evs))
   \<or> (\<exists>p evs. download_try H s e url fname existing overwrite st = (Inr (p, st), evs))
   \<or> (\<exists>fp c rows sp evs.
        download_try H s e url fname existing overwrite st
          = (Inr (fp, st\<lparr>db := rows,
                        stats := (stats st)\<lparr>files_scraped := files_scraped (stats st) + 1,
                                            total_size := total_size (stats st) + length c\<rparr>\<rparr>),
             evs)
      \<and> storage_save e sp c = Inr fp
      \<and> EvSave sp c \<in> set evs
      \<and> commit_record s e url fname existing overwrite fp (calculate_hash H c) (length c) (db st)
          = Inr rows)"
proof (cases "make_request s (get_result e) url True")
  case (Pair res evs)
  show ?thesis
  proof (cases res)
    case (Inl m)
    then show ?thesis using Pair by (simp add: download_try_cases)
  next
    case (Inr ro)
    show ?thesis
    proof (cases ro)
      case None
      then show ?thesis using Pair Inr by (simp add: download_try_cases)
    next
      case (Some r)
      note mr = Pair[unfolded Inr Some]
      show ?thesis
      proof (cases "body_error r")
        case (Some m)
        then show ?thesis using mr by (simp add: download_try_cases)
      next
        case None
        let ?c = "concat (body_chunks r)"
        let ?sp = "path_join (scraped_files_dir s) [institution_code s, fname]"
        have sc: "(\<exists>x evs. store_and_commit s e url fname existing overwrite ?sp ?c
                      (calculate_hash H ?c) (length ?c) st = (Inl x, evs))
              \<or> (\<exists>fp rows. store_and_commit s e url fname existing overwrite ?sp ?c
                      (calculate_hash H ?c) (length ?c) st
                    = (Inr (fp, st\<lparr>db := rows,
                        stats := (stats st)\<lparr>files_scraped := files_scraped (stats st) + 1,
                                            total_size := total_size (stats st) + length ?c\<rparr>\<rparr>),
                       [EvSave ?sp ?c])
                  \<and> storage_save e ?sp ?c = Inr fp
                  \<and> commit_record s e url fname existing overwrite fp (calculate_hash H ?c)
                       (length ?c) (db st) = Inr rows)"
          by (simp add: store_and_commit_def del: path_join.simps split: sum.splits)
        show ?thesis
        proof (cases "\<exists>ex. existing = Some ex \<and> hash_value ex = calculate_hash H ?c \<and> \<not> overwrite")
          case True
          then show ?thesis using mr None
            by (auto simp: download_try_cases simp del: path_join.simps)
        next
          case False
          then have dt: "download_try H s e url fname existing overwrite st =
                (case store_and_commit s e url fname existing overwrite ?sp ?c
                      (calculate_hash H ?c) (length ?c) st of
                   (res, evs') \<Rightarrow> (res, evs @ EvBody url (length ?c) # evs'))"
            using mr None
            by (auto simp: download_try_cases simp del: path_join.simps split: option.splits)
          from sc show ?thesis
          proof
            assume "\<exists>x evs. store_and_commit s e url fname existing overwrite ?sp ?c
                      (calculate_hash H ?c) (length ?c) st = (Inl x, evs)"
            then show ?thesis unfolding dt by auto
          next
            assume "\<exists>fp rows. store_and_commit s e url fname existing overwrite ?sp ?c
                      (calculate_hash H ?c) (length ?c) st
                    = (Inr (fp, st\<lparr>db := rows,
                        stats := (stats st)\<lparr>files_scraped := files_scraped (stats st) + 1,
                                            total_size := total_size (stats st) + length ?c\<rparr>\<rparr>),
                       [EvSave ?sp ?c])
                  \<and> storage_save e ?sp ?c = Inr fp
                  \<and> commit_record s e url fname existing overwrite fp (calculate_hash H ?c)
                       (length ?c) (db st) = Inr rows"
            then obtain fp rows where
              "store_and_commit s e url fname existing overwrite ?sp ?c
                      (calculate_hash H ?c) (length ?c) st
                    = (Inr (fp, st\<lparr>db := rows,
                        stats := (stats st)\<lparr>files_scraped := files_scraped (stats st) + 1,
                                            total_size := total_size (stats st) + length ?c\<rparr>\<rparr>),
                       [EvSave ?sp ?c])"
              "storage_save e ?sp ?c = Inr fp"
              "commit_record s e url fname existing overwrite fp (calculate_hash H ?c)
                       (length ?c) (db st) = Inr rows"
              by blast
            then show ?thesis unfolding dt
              by (intro disjI2) (rule exI[of _ fp], rule exI[of _ ?c], rule exI[of _ rows],
                  rule exI[of _ ?sp], rule exI[of _ "evs @ [EvBody url (length ?c), EvSave ?sp ?c]"],
                  simp del: path_join.simps)
          qed
        qed
      qed
    qed
  qed
qed


lemma download_file_outcome:
  "(fst (download_file H s e url name overwrite st) = None
      \<and> (\<exists>msg. fst (snd (download_file H s e url name overwrite st))
             = st\<lparr>stats := record_error url msg (now e)
                     ((stats st)\<lparr>files_failed := files_failed (stats st) + 1\<rparr>)\<rparr>))
   \<or> (fst (download_file H s e url name overwrite st) \<noteq> None
      \<and> fst (snd (download_file H s e url name overwrite st)) = st)
   \<or> (\<exists>fp c rows sp.
        fst (download_file H s e url name overwrite st) = Some fp
      \<and> storage_save e sp c = Inr fp
      \<and> EvSave sp c \<in> set (snd (snd (download_file H s e url name overwrite st)))
      \<and> commit_record s e url (case name of None \<Rightarrow> default_file_name e url | Some f \<Rightarrow> f)
            (objects_filter_first (db st) (institution_code s) url) overwrite fp
            (calculate_hash H c) (length c) (db st) = Inr rows
      \<and> fst (snd (download_file H s e url name overwrite st))
          = st\<lparr>db := rows,
               stats := (stats st)\<lparr>files_scraped := files_scraped (stats st) + 1,
                                   total_size := total_size (stats st) + length c\<rparr>\<rparr>)"
proof -
  let ?fname = "case name of None \<Rightarrow> default_file_name e url | Some f \<Rightarrow> f"
  let ?ex = "objects_filter_first (db st) (institution_code s) url"
  obtain po pevs where probe: "etag_probe s e url ?ex overwrite = (po, pevs)"
    by (cases "etag_probe s e url ?ex overwrite")
  show ?thesis
  proof (cases po)
    case (Some p)
    then show ?thesis using probe by (simp add: download_file_def)
  next
    case None
    have df: "download_file H s e url name overwrite st =
          (case download_try H s e url ?fname ?ex overwrite st of
             (Inr (p, st'), evs') \<Rightarrow> (Some p, st', pevs @ evs')
           | (Inl x, evs') \<Rightarrow>
               (None,
                st\<lparr>stats := record_error url (str_exn x) (now e)
                              ((stats st)\<lparr>files_failed := files_failed (stats st) + 1\<rparr>)\<rparr>,
                pevs @ evs'))"
      using probe None by (simp add: download_file_def)
    from download_try_outcome[of H s e url ?fname ?ex overwrite st]
    show ?thesis
    proof (elim disjE exE conjE)
      fix x evs
      assume "download_try H s e url ?fname ?ex overwrite st = (Inl x, evs)"
      then show ?thesis unfolding df by auto
    next
      fix p evs
      assume "download_try H s e url ?fname ?ex overwrite st = (Inr (p, st), evs)"
      then show ?thesis unfolding df by simp
    next
      fix fp c rows sp evs
      assume a: "download_try H s e url ?fname ?ex overwrite st
          = (Inr (fp, st\<lparr>db := rows,
                        stats := (stats st)\<lparr>files_scraped := files_scraped (stats st) + 1,
                                            total_size := total_size (stats st) + length c\<rparr>\<rparr>),
             evs)"
        and b: "storage_save e sp c = Inr fp" "EvSave sp c \<in> set evs"
          "commit_record s e url ?fname ?ex overwrite fp (calculate_hash H c) (length c) (db st)
             = Inr rows"
      show ?thesis
        unfolding df a using b
        by (intro disjI2) (rule exI[of _ fp], rule exI[of _ c], rule exI[of _ rows],
            rule exI[of _ sp], simp)
    qed
  qed
qed

lemma filter_first_Some:
  "objects_filter_first rows inst url = Some ex
     \<Longrightarrow> ex \<in> set rows \<and> institution ex = inst \<and> original_url ex = url"
  by (auto simp: objects_filter_first_def find_Some_iff)

lemma filter_first_None:
  "objects_filter_first rows inst url = None
     \<Longrightarrow> (inst, url) \<notin> set (map (\<lambda>r. (institution r, original_url r)) rows)"
  by (auto simp: objects_filter_first_def find_None_iff)

lemma commit_record_row:
  assumes "commit_record s e url fname (objects_filter_first rows (institution_code s) url)
             overwrite fp hv n rows = Inr rows'"
    and "rows' \<noteq> rows"
  shows "\<exists>r \<in> set rows'. institution r = institution_code s \<and> original_url r = url
            \<and> file_path r = fp \<and> hash_value r = hv \<and> file_size r = n"
proof (cases "objects_filter_first rows (institution_code s) url")
  case None
  then show ?thesis using assms
    by (auto simp: commit_record_def objects_create_def split: option.splits)
next
  case (Some ex)
  note ex = filter_first_Some[OF Some]
  let ?new = "ex\<lparr>file_path := fp, file_size := n, mime_type := get_mime_type fname,
                  hash_value := hv, last_updated := now e\<rparr>"
  from assms Some have rows': "rows' = objects_save rows ?new"
    by (auto simp: commit_record_def split: option.splits if_splits)
  have "?new \<in> set rows'"
    unfolding rows' objects_save_def using ex by (auto simp: image_iff intro!: bexI[of _ ex])
  then show ?thesis using ex by (intro bexI[of _ ?new]) simp_all
qed

lemma store_and_commit_save_fails:
  "isl (storage_save e sp c)
     \<Longrightarrow> isl (fst (store_and_commit s e url fname existing overwrite sp c hv n st))"
  by (auto simp: store_and_commit_def isl_def)

section \<open>Change detection\<close>

text \<open>
  Claim C3. Let a row exist for the institution and the URL, let \<^verbatim>\<open>overwrite\<close> be
  false, and let the \<^verbatim>\<open>HEAD\<close> request return an \<^verbatim>\<open>ETag\<close> that is not empty and
  equals the stored hash. Then \<^verbatim>\<open>download_file\<close> returns the stored path, the table
  and the statistics are what they were, and the only event of the call is the
  \<^verbatim>\<open>HEAD\<close> request: there is no \<^verbatim>\<open>GET\<close>.
\<close>

theorem etag_match_skips:
  assumes "objects_filter_first (db st) (institution_code s) url = Some ex"
    and "\<not> overwrite"
    and "head_result e = HeadReturns (Some etag)"
    and "etag \<noteq> []"
    and "etag = hash_value ex"
  shows "download_file H s e url name overwrite st
           = (Some (file_path ex), st, [EvHead url (request_timeout s)])"
  using assms by (simp add: download_file_def etag_probe_def)

text \<open>A stored file whose hash the server reports as its \<^verbatim>\<open>ETag\<close>.\<close>

theorem etag_match_skips_witness:
  "download_file toy_digest (default_scraper ''BNB'' ''scraped'')
      (quiet_env\<lparr>head_result := HeadReturns (Some (toy_digest [1, 2, 3]))\<rparr>) ''u'' None False
      \<lparr>db = [stored_file], stats = init_stats 0\<rparr>
     = (Some ''scraped/BNB/a.csv'', \<lparr>db = [stored_file], stats = init_stats 0\<rparr>, [EvHead ''u'' 30])"
  using etag_match_skips[of "\<lparr>db = [stored_file], stats = init_stats 0\<rparr>"
      "default_scraper ''BNB'' ''scraped''" "''u''" stored_file False
      "quiet_env\<lparr>head_result := HeadReturns (Some (toy_digest [1, 2, 3]))\<rparr>"
      "toy_digest [1, 2, 3]" toy_digest None]
  by (simp add: objects_filter_first_def default_scraper_def stored_file_def quiet_env_def
      toy_digest_def)




section \<open>Failures\<close>

text \<open>
  Claim C5. If every write to the storage fails, the table after the call is the
  table before it. More generally, whenever the call changes the table, a write to
  the storage is among its events, that write succeeded, the call returns the path the
  storage gave, and the table has a row for the institution and the URL with that
  path, the digest of the bytes written and their length.
\<close>

theorem storage_failure_no_commit:
  "((\<forall>p c. isl (storage_save e p c))
      \<longrightarrow> db (fst (snd (download_file H s e url name overwrite st))) = db st)
   \<and> (db (fst (snd (download_file H s e url name overwrite st))) \<noteq> db st
      \<longrightarrow> (\<exists>sp c fp.
            EvSave sp c \<in> set (snd (snd (download_file H s e url name overwrite st)))
          \<and> storage_save e sp c = Inr fp
          \<and> fst (download_file H s e url name overwrite st) = Some fp
          \<and> (\<exists>r \<in> set (db (fst (snd (download_file H s e url name overwrite st)))).
                institution r = institution_code s \<and> original_url r = url
              \<and> file_path r = fp \<and> hash_value r = calculate_hash H c
              \<and> file_size r = length c)))"
proof -
  let ?res = "download_file H s e url name overwrite st"
  have changed: "\<exists>sp c fp.
            EvSave sp c \<in> set (snd (snd ?res))
          \<and> storage_save e sp c = Inr fp
          \<and> fst ?res = Some fp
          \<and> (\<exists>r \<in> set (db (fst (snd ?res))).
                institution r = institution_code s \<and> original_url r = url
              \<and> file_path r = fp \<and> hash_value r = calculate_hash H c
              \<and> file_size r = length c)"
    if neq: "db (fst (snd ?res)) \<noteq> db st"
    using download_file_outcome[of H s e url name overwrite st]
  proof (elim disjE exE conjE)
    fix msg
    assume "fst (snd ?res) = st\<lparr>stats := record_error url msg (now e)
                     ((stats st)\<lparr>files_failed := files_failed (stats st) + 1\<rparr>)\<rparr>"
    with neq show ?thesis by simp
  next
    assume "fst (snd ?res) = st"
    with neq show ?thesis by simp
  next
    fix fp c rows sp
    assume a: "fst ?res = Some fp" "storage_save e sp c = Inr fp" "EvSave sp c \<in> set (snd (snd ?res))"
      and cr: "commit_record s e url (case name of None \<Rightarrow> default_file_name e url | Some f \<Rightarrow> f)
            (objects_filter_first (db st) (institution_code s) url) overwrite fp
            (calculate_hash H c) (length c) (db st) = Inr rows"
      and st': "fst (snd ?res) = st\<lparr>db := rows,
               stats := (stats st)\<lparr>files_scraped := files_scraped (stats st) + 1,
                                   total_size := total_size (stats st) + length c\<rparr>\<rparr>"
    from neq st' have "rows \<noteq> db st" by simp
    from commit_record_row[OF cr this] a st' show ?thesis
      by (intro exI[of _ sp] exI[of _ c] exI[of _ fp]) simp
  qed
  have failing: "db (fst (snd ?res)) = db st" if "\<forall>p c. isl (storage_save e p c)"
  proof (rule ccontr)
    assume "db (fst (snd ?res)) \<noteq> db st"
    from changed[OF this] obtain sp c fp where "storage_save e sp c = Inr fp" by blast
    with that[rule_format, of sp c] show False by simp
  qed
  show ?thesis using changed failing by blast
qed

text \<open>A new URL whose body arrives while the storage cannot write: no row.\<close>

theorem storage_failure_no_commit_witness:
  "(\<forall>p c. isl (storage_save full_disk_env p c))
   \<and> db (fst (snd (download_file toy_digest (default_scraper ''BNB'' ''scraped'') full_disk_env
           ''u'' None False \<lparr>db = [], stats = init_stats 0\<rparr>))) = []"
  using storage_failure_no_commit[of full_disk_env toy_digest "default_scraper ''BNB'' ''scraped''"
      "''u''" None False "\<lparr>db = [], stats = init_stats 0\<rparr>"]
  by (simp add: full_disk_env_def quiet_env_def)

text \<open>
  Claim C7. Whenever \<^verbatim>\<open>download_file\<close> returns \<^verbatim>\<open>None\<close>, the state after the call
  is the state before it with \<^verbatim>\<open>files_failed\<close> one higher and one entry for the URL
  appended to the errors: \<^verbatim>\<open>files_scraped\<close>, \<^verbatim>\<open>total_size\<close> and the table are
  untouched. And it does return \<^verbatim>\<open>None\<close> (it does not raise) in each of these cases,
  provided the call did not return from the \<^verbatim>\<open>ETag\<close> block: the request fails on
  every attempt; the stream of the response breaks; the write to the storage fails
  (for content that is not the stored one).
\<close>

theorem download_failure_isolated:
  "(fst (download_file H s e url name overwrite st) = None
      \<longrightarrow> (\<exists>msg. fst (snd (download_file H s e url name overwrite st))
                = st\<lparr>stats := (stats st)
                       \<lparr>files_failed := files_failed (stats st) + 1,
                        errors := errors (stats st)
                                  @ [\<lparr>err_url = url, err_error = msg, err_time = now e\<rparr>]\<rparr>\<rparr>))
   \<and> (fst (etag_probe s e url (objects_filter_first (db st) (institution_code s) url) overwrite)
         = None
       \<and> (isl (fst (make_request s (get_result e) url True))
          \<or> (\<exists>r. fst (make_request s (get_result e) url True) = Inr (Some r)
                \<and> (body_error r \<noteq> None
                   \<or> (\<forall>p c. isl (storage_save e p c))
                     \<and> (\<forall>ex. objects_filter_first (db st) (institution_code s) url = Some ex
                              \<longrightarrow> overwrite
                                  \<or> hash_value ex \<noteq> calculate_hash H (concat (body_chunks r))))))
      \<longrightarrow> fst (download_file H s e url name overwrite st) = None)"
proof -
  let ?res = "download_file H s e url name overwrite st"
  let ?fname = "case name of None \<Rightarrow> default_file_name e url | Some f \<Rightarrow> f"
  let ?ex = "objects_filter_first (db st) (institution_code s) url"
  have a: "\<exists>msg. fst (snd ?res)
                = st\<lparr>stats := (stats st)
                       \<lparr>files_failed := files_failed (stats st) + 1,
                        errors := errors (stats st)
                                  @ [\<lparr>err_url = url, err_error = msg, err_time = now e\<rparr>]\<rparr>\<rparr>"
    if "fst ?res = None"
    using download_file_outcome[of H s e url name overwrite st] that
    by (auto simp: record_error_def)
  have b: "fst ?res = None"
    if probe: "fst (etag_probe s e url ?ex overwrite) = None"
      and fail: "isl (fst (make_request s (get_result e) url True))
          \<or> (\<exists>r. fst (make_request s (get_result e) url True) = Inr (Some r)
                \<and> (body_error r \<noteq> None
                   \<or> (\<forall>p c. isl (storage_save e p c))
                     \<and> (\<forall>ex. ?ex = Some ex
                              \<longrightarrow> overwrite
                                  \<or> hash_value ex \<noteq> calculate_hash H (concat (body_chunks r)))))"
  proof -
    obtain pevs where pr: "etag_probe s e url ?ex overwrite = (None, pevs)"
      using probe by (cases "etag_probe s e url ?ex overwrite") simp
    have df: "fst ?res = (case fst (download_try H s e url ?fname ?ex overwrite st) of
                 Inr (p, st') \<Rightarrow> Some p | Inl x \<Rightarrow> None)"
      using pr by (simp add: download_file_def split: prod.splits sum.splits)
    obtain res evs where mr: "make_request s (get_result e) url True = (res, evs)"
      by (cases "make_request s (get_result e) url True")
    have "isl (fst (download_try H s e url ?fname ?ex overwrite st))"
      using fail
    proof (elim disjE exE conjE)
      assume "isl (fst (make_request s (get_result e) url True))"
      then show ?thesis unfolding download_try_cases mr by (auto simp: isl_def)
    next
      fix r
      assume "fst (make_request s (get_result e) url True) = Inr (Some r)" "body_error r \<noteq> None"
      then show ?thesis unfolding download_try_cases mr by auto
    next
      fix r
      assume r: "fst (make_request s (get_result e) url True) = Inr (Some r)"
        and save: "\<forall>p c. isl (storage_save e p c)"
        and ne: "\<forall>ex. ?ex = Some ex
                   \<longrightarrow> overwrite \<or> hash_value ex \<noteq> calculate_hash H (concat (body_chunks r))"
      show ?thesis
      proof (cases "body_error r")
        case (Some m)
        with r show ?thesis unfolding download_try_cases mr by auto
      next
        case None
        have "fst (download_try H s e url ?fname ?ex overwrite st)
               = fst (store_and_commit s e url ?fname ?ex overwrite
                       (path_join (scraped_files_dir s) [institution_code s, ?fname])
                       (concat (body_chunks r)) (calculate_hash H (concat (body_chunks r)))
                       (length (concat (body_chunks r))) st)"
          using r None ne unfolding download_try_cases mr
          by (auto split: option.splits prod.splits)
        then show ?thesis using store_and_commit_save_fails save by simp
      qed
    qed
    then show ?thesis unfolding df by (auto simp: isl_def)
  qed
  show ?thesis using a b by blast
qed

text \<open>A new URL that times out on all three attempts: one failure, one error, no row.\<close>

theorem download_failure_isolated_witness:
  "fst (download_file toy_digest (default_scraper ''BNB'' ''scraped'') quiet_env ''u'' None False
          \<lparr>db = [], stats = init_stats 0\<rparr>) = None
   \<and> (\<exists>msg. fst (snd (download_file toy_digest (default_scraper ''BNB'' ''scraped'') quiet_env
                        ''u'' None False \<lparr>db = [], stats = init_stats 0\<rparr>))
        = \<lparr>db = [],
           stats = (init_stats 0)
             \<lparr>files_failed := 1,
              errors := [\<lparr>err_url = ''u'', err_error = msg, err_time = 7\<rparr>]\<rparr>\<rparr>)"
proof -
  let ?s = "default_scraper ''BNB'' ''scraped''"
  let ?st = "\<lparr>db = [], stats = init_stats 0\<rparr>"
  have p: "fst (etag_probe ?s quiet_env ''u''
             (objects_filter_first (db ?st) (institution_code ?s) ''u'') False) = None"
    by (simp add: etag_probe_def objects_filter_first_def)
  have m: "isl (fst (make_request ?s (get_result quiet_env) ''u'' True))"
    by (simp add: make_request_def default_scraper_def quiet_env_def attempt_result_def
        upt_conv_Cons eval_nat_numeral)
  note t = download_failure_isolated[of toy_digest ?s quiet_env "''u''" None False ?st]
  from t p m have n: "fst (download_file toy_digest ?s quiet_env ''u'' None False ?st) = None"
    by blast
  with t have "\<exists>msg. fst (snd (download_file toy_digest ?s quiet_env ''u'' None False ?st))
                = ?st\<lparr>stats := (stats ?st)
                       \<lparr>files_failed := files_failed (stats ?st) + 1,
                        errors := errors (stats ?st)
                                  @ [\<lparr>err_url = ''u'', err_error = msg, err_time = now quiet_env\<rparr>]\<rparr>\<rparr>"
    by blast
  then show ?thesis using n by (simp add: init_stats_def quiet_env_def)
qed

section \<open>Errors and failures of a run\<close>

lemma fetch_page_cases:
  "(fst (fetch_page s e url st) = Inr None
      \<and> isl (fst (make_request s (get_result e) url False))
      \<and> (\<exists>msg. fst (snd (fetch_page s e url st))
            = st\<lparr>stats := (stats st)
                   \<lparr>errors := errors (stats st)
                       @ [\<lparr>err_url = url, err_error = msg, err_time = now e\<rparr>]\<rparr>\<rparr>))
   \<or> (fst (fetch_page s e url st) \<noteq> Inr None
      \<and> \<not> isl (fst (make_request s (get_result e) url False))
      \<and> fst (snd (fetch_page s e url st)) = st)"
  by (cases "make_request s (get_result e) url False")
     (auto simp: fetch_page_def record_error_def split: sum.splits option.splits)

lemma run_call_stats:
  "files_failed (stats (run_call H s c st))
     = files_failed (stats st) + (if download_failed H s c st then 1 else 0)
   \<and> length (errors (stats (run_call H s c st)))
     = length (errors (stats st)) + (if download_failed H s c st then 1 else 0)
       + (if page_failed s c st then 1 else 0)"
proof (cases c)
  case (FetchPage url e)
  then show ?thesis using fetch_page_cases[of s e url st] by auto
next
  case (DownloadFile url name overwrite e)
  then show ?thesis
    using download_file_outcome[of H s e url name overwrite st]
    by (auto simp: record_error_def)
qed

lemma run_calls_stats:
  "files_failed (stats (run_calls H s cs st))
     = files_failed (stats st) + count_download_failures H s cs st
   \<and> length (errors (stats (run_calls H s cs st)))
     = length (errors (stats st)) + count_download_failures H s cs st
       + count_page_failures H s cs st"
proof (induction cs arbitrary: st)
  case Nil
  show ?case by simp
next
  case (Cons c cs)
  show ?case
    using Cons[of "run_call H s c st"] run_call_stats[of H s c st]
    by (simp del: run_call.simps download_failed.simps page_failed.simps)
qed

text \<open>
  Claim C10. A call of \<^verbatim>\<open>fetch_page\<close> returns \<^verbatim>\<open>None\<close> exactly when its request
  fails on every attempt, and then it appends one entry to the errors and changes
  nothing else: \<^verbatim>\<open>files_failed\<close> stays. So, after any sequence of calls of
  \<^verbatim>\<open>fetch_page\<close> and \<^verbatim>\<open>download_file\<close>, \<^verbatim>\<open>files_failed\<close> has grown by the number
  of downloads that failed, and the errors by that number plus the number of pages
  that failed; with one failed page, and no more failures than errors at the start,
  there are more errors than failures at the end.
\<close>

theorem page_failure_not_counted:
  "(fst (fetch_page s e url st) = Inr None
      \<longrightarrow> (\<exists>msg. fst (snd (fetch_page s e url st))
             = st\<lparr>stats := (stats st)
                    \<lparr>errors := errors (stats st)
                        @ [\<lparr>err_url = url, err_error = msg, err_time = now e\<rparr>]\<rparr>\<rparr>))
   \<and> (fst (fetch_page s e url st) = Inr None)
       = isl (fst (make_request s (get_result e) url False))
   \<and> files_failed (stats (run_calls H s cs st))
       = files_failed (stats st) + count_download_failures H s cs st
   \<and> length (errors (stats (run_calls H s cs st)))
       = length (errors (stats st)) + count_download_failures H s cs st
         + count_page_failures H s cs st
   \<and> (files_failed (stats st) \<le> length (errors (stats st))
        \<and> 0 < count_page_failures H s cs st
      \<longrightarrow> files_failed (stats (run_calls H s cs st))
            < length (errors (stats (run_calls H s cs st))))"
proof -
  note fp = fetch_page_cases[of s e url st]
  have a: "fst (fetch_page s e url st) = Inr None
      \<longrightarrow> (\<exists>msg. fst (snd (fetch_page s e url st))
             = st\<lparr>stats := (stats st)
                    \<lparr>errors := errors (stats st)
                        @ [\<lparr>err_url = url, err_error = msg, err_time = now e\<rparr>]\<rparr>\<rparr>)"
    using fp by blast
  have b: "(fst (fetch_page s e url st) = Inr None)
       = isl (fst (make_request s (get_result e) url False))"
    using fp by blast
  note rc = run_calls_stats[of H s cs st]
  have c: "files_failed (stats st) \<le> length (errors (stats st))
        \<and> 0 < count_page_failures H s cs st
      \<longrightarrow> files_failed (stats (run_calls H s cs st))
            < length (errors (stats (run_calls H s cs st)))"
    using rc by linarith
  show ?thesis using a b rc c by blast
qed

text \<open>A run of one page that cannot be fetched: no failure counted, one error.\<close>

theorem page_failure_not_counted_witness:
  "files_failed (stats (run_calls toy_digest (default_scraper ''BNB'' ''scraped'')
       [FetchPage ''p'' quiet_env] \<lparr>db = [], stats = init_stats 0\<rparr>)) = 0
   \<and> length (errors (stats (run_calls toy_digest (default_scraper ''BNB'' ''scraped'')
       [FetchPage ''p'' quiet_env] \<lparr>db = [], stats = init_stats 0\<rparr>))) = 1"
proof -
  let ?s = "default_scraper ''BNB'' ''scraped''"
  let ?st = "\<lparr>db = [], stats = init_stats 0\<rparr>"
  have m: "isl (fst (make_request ?s (get_result quiet_env) ''p'' False))"
    by (simp add: make_request_def default_scraper_def quiet_env_def attempt_result_def
        upt_conv_Cons eval_nat_numeral)
  note t = page_failure_not_counted[of ?s quiet_env "''p''" ?st toy_digest "[FetchPage ''p'' quiet_env]"]
  from t m have f: "fst (fetch_page ?s quiet_env ''p'' ?st) = Inr None" by blast
  have cp: "count_page_failures toy_digest ?s [FetchPage ''p'' quiet_env] ?st = 1"
    using f by simp
  have cd: "count_download_failures toy_digest ?s [FetchPage ''p'' quiet_env] ?st = 0"
    by simp
  from t have "files_failed (stats (run_calls toy_digest ?s [FetchPage ''p'' quiet_env] ?st))
       = files_failed (stats ?st) + count_download_failures toy_digest ?s [FetchPage ''p'' quiet_env] ?st"
    and "length (errors (stats (run_calls toy_digest ?s [FetchPage ''p'' quiet_env] ?st)))
       = length (errors (stats ?st)) + count_download_failures toy_digest ?s [FetchPage ''p'' quiet_env] ?st
         + count_page_failures toy_digest ?s [FetchPage ''p'' quiet_env] ?st"
    by blast+
  then show ?thesis unfolding cp cd by (simp add: init_stats_def)
qed

section \<open>One row for an institution and a URL\<close>

lemma unique_together_key_of: "unique_together rows = distinct (map key_of rows)"
  by (simp add: unique_together_def key_of_def[abs_def])

lemma foldr_max_ge: "x \<in> set xs \<Longrightarrow> x \<le> foldr max xs (0::nat)"
  by (induction xs) auto

lemma next_pk_fresh: "next_pk rows \<notin> set (map pk rows)"
proof
  assume "next_pk rows \<in> set (map pk rows)"
  then have "next_pk rows \<le> foldr max (map pk rows) 0" by (rule foldr_max_ge)
  then show False by (simp add: next_pk_def)
qed

lemma objects_save_same:
  assumes "pk_unique rows" and "ex \<in> set rows" and "pk new = pk ex" and "key_of new = key_of ex"
  shows "map key_of (objects_save rows new) = map key_of rows
         \<and> map pk (objects_save rows new) = map pk rows"
proof -
  have inj: "inj_on pk (set rows)"
    using assms(1) by (simp add: pk_unique_def distinct_map)
  have "r = ex" if "r \<in> set rows" "pk r = pk new" for r
    using inj that assms(2,3) by (auto dest: inj_onD)
  then show ?thesis
    using assms(3,4) by (auto simp: objects_save_def)
qed

lemma objects_create_keys:
  "map key_of (objects_create rows obj) = map key_of rows @ [key_of obj]
   \<and> map pk (objects_create rows obj) = map pk rows @ [next_pk rows]"
  by (simp add: objects_create_def key_of_def)

lemma commit_record_inv:
  assumes "pk_unique rows" and "unique_together rows"
    and "commit_record s e url fname (objects_filter_first rows (institution_code s) url)
           overwrite fp hv n rows = Inr rows'"
  shows "pk_unique rows' \<and> unique_together rows'"
proof (cases "objects_filter_first rows (institution_code s) url")
  case None
  from filter_first_None[OF None] have fresh: "(institution_code s, url) \<notin> set (map key_of rows)"
    by (simp add: key_of_def[abs_def])
  from assms(3) None obtain new where rows': "rows' = objects_create rows new"
    and k: "key_of new = (institution_code s, url)"
    by (auto simp: commit_record_def key_of_def split: option.splits)
  show ?thesis
    using assms(1,2) fresh k next_pk_fresh[of rows] objects_create_keys[of rows new]
    unfolding rows' unique_together_key_of pk_unique_def by simp
next
  case (Some ex)
  note ex = filter_first_Some[OF Some]
  let ?new = "ex\<lparr>file_path := fp, file_size := n, mime_type := get_mime_type fname,
                  hash_value := hv, last_updated := now e\<rparr>"
  from assms(3) Some have "rows' = rows \<or> rows' = objects_save rows ?new"
    by (auto simp: commit_record_def split: option.splits if_splits)
  then show ?thesis
  proof
    assume "rows' = rows"
    then show ?thesis using assms(1,2) by simp
  next
    assume r: "rows' = objects_save rows ?new"
    have "map key_of rows' = map key_of rows \<and> map pk rows' = map pk rows"
      unfolding r using ex by (intro objects_save_same[OF assms(1), of ex]) (simp_all add: key_of_def)
    then show ?thesis using assms(1,2) unfolding unique_together_key_of pk_unique_def by simp
  qed
qed

lemma download_file_inv:
  assumes "pk_unique (db st)" and "unique_together (db st)"
  shows "pk_unique (db (fst (snd (download_file H s e url name overwrite st))))
         \<and> unique_together (db (fst (snd (download_file H s e url name overwrite st))))"
  using download_file_outcome[of H s e url name overwrite st]
proof (elim disjE exE conjE)
  fix fp c rows sp
  assume cr: "commit_record s e url (case name of None \<Rightarrow> default_file_name e url | Some f \<Rightarrow> f)
            (objects_filter_first (db st) (institution_code s) url) overwrite fp
            (calculate_hash H c) (length c) (db st) = Inr rows"
    and st': "fst (snd (download_file H s e url name overwrite st))
          = st\<lparr>db := rows,
               stats := (stats st)\<lparr>files_scraped := files_scraped (stats st) + 1,
                                   total_size := total_size (stats st) + length c\<rparr>\<rparr>"
  from commit_record_inv[OF assms cr] show ?thesis unfolding st' by simp
qed (use assms in auto)

lemma run_call_inv:
  assumes "pk_unique (db st)" and "unique_together (db st)"
  shows "pk_unique (db (run_call H s c st)) \<and> unique_together (db (run_call H s c st))"
proof (cases c)
  case (FetchPage url e)
  then show ?thesis using fetch_page_cases[of s e url st] assms by auto
next
  case (DownloadFile url name overwrite e)
  then show ?thesis using download_file_inv[OF assms] by simp
qed

lemma run_calls_inv:
  assumes "pk_unique (db st)" and "unique_together (db st)"
  shows "pk_unique (db (run_calls H s cs st)) \<and> unique_together (db (run_calls H s cs st))"
  using assms
proof (induction cs arbitrary: st)
  case Nil
  then show ?case by simp
next
  case (Cons c cs)
  from run_call_inv[OF Cons.prems, of H s c] Cons.IH[of "run_call H s c st"]
  show ?case by simp
qed


lemma download_file_existing:
  assumes "pk_unique (db st)"
    and "objects_filter_first (db st) (institution_code s) url = Some ex"
  shows "map key_of (db (fst (snd (download_file H s e url name overwrite st)))) = map key_of (db st)
       \<and> map pk (db (fst (snd (download_file H s e url name overwrite st)))) = map pk (db st)
       \<and> (db (fst (snd (download_file H s e url name overwrite st))) = db st
          \<or> (\<exists>fp c. db (fst (snd (download_file H s e url name overwrite st)))
                = objects_save (db st)
                    (ex\<lparr>file_path := fp, file_size := length c,
                        mime_type := get_mime_type
                          (case name of None \<Rightarrow> default_file_name e url | Some f \<Rightarrow> f),
                        hash_value := calculate_hash H c, last_updated := now e\<rparr>)))"
  using download_file_outcome[of H s e url name overwrite st]
proof (elim disjE exE conjE)
  fix fp c rows sp
  let ?new = "ex\<lparr>file_path := fp, file_size := length c,
                        mime_type := get_mime_type
                          (case name of None \<Rightarrow> default_file_name e url | Some f \<Rightarrow> f),
                        hash_value := calculate_hash H c, last_updated := now e\<rparr>"
  assume cr: "commit_record s e url (case name of None \<Rightarrow> default_file_name e url | Some f \<Rightarrow> f)
            (objects_filter_first (db st) (institution_code s) url) overwrite fp
            (calculate_hash H c) (length c) (db st) = Inr rows"
    and st': "fst (snd (download_file H s e url name overwrite st))
          = st\<lparr>db := rows,
               stats := (stats st)\<lparr>files_scraped := files_scraped (stats st) + 1,
                                   total_size := total_size (stats st) + length c\<rparr>\<rparr>"
  note ex = filter_first_Some[OF assms(2)]
  from cr assms(2) have "rows = db st \<or> rows = objects_save (db st) ?new"
    by (auto simp: commit_record_def split: option.splits if_splits)
  then show ?thesis
  proof
    assume "rows = db st"
    then show ?thesis unfolding st' by simp
  next
    assume r: "rows = objects_save (db st) ?new"
    have "map key_of rows = map key_of (db st) \<and> map pk rows = map pk (db st)"
      unfolding r using ex
      by (intro objects_save_same[OF assms(1), of ex]) (simp_all add: key_of_def)
    then show ?thesis unfolding st' using r by auto
  qed
qed auto

lemma download_file_new:
  assumes "objects_filter_first (db st) (institution_code s) url = None"
  shows "(fst (download_file H s e url name overwrite st) = None
          \<and> db (fst (snd (download_file H s e url name overwrite st))) = db st)
       \<or> (\<exists>fp c. fst (download_file H s e url name overwrite st) = Some fp
            \<and> db (fst (snd (download_file H s e url name overwrite st)))
                = db st @ [\<lparr>pk = next_pk (db st), institution = institution_code s,
                            original_url = url, file_path = fp,
                            file_name = (case name of None \<Rightarrow> default_file_name e url | Some f \<Rightarrow> f),
                            file_size = length c,
                            mime_type = get_mime_type
                              (case name of None \<Rightarrow> default_file_name e url | Some f \<Rightarrow> f),
                            hash_value = calculate_hash H c,
                            date_created = now e, last_updated = now e\<rparr>])"
proof -
  obtain res evs where mr: "make_request s (get_result e) url True = (res, evs)"
    by (cases "make_request s (get_result e) url True")
  show ?thesis
    unfolding download_file_def Let_def assms download_try_cases mr store_and_commit_def
      commit_record_def etag_probe_def objects_create_def
    by (auto split: sum.splits option.splits)
qed

lemma make_request_first_ok:
  assumes "0 < max_retries s" and "attempt_result url (net 0) = Inr r"
  shows "make_request s net url stream
           = (Inr (Some r),
              [EvGet url (if stream then download_timeout s else request_timeout s) stream,
               EvSleep (request_delay s)])"
proof -
  have "[0..<nat (max_retries s)] = 0 # [Suc 0..<nat (max_retries s)]"
    using assms(1) by (simp add: upt_conv_Cons)
  then show ?thesis using assms(2) by (simp add: make_request_def)
qed

lemma objects_save_in_place:
  assumes "pk_unique rows" and "i < length rows" and "rows ! i = ex" and "pk new = pk ex"
  shows "objects_save rows new = rows[i := new]"
proof (rule nth_equalityI)
  show "length (objects_save rows new) = length (rows[i := new])"
    by (simp add: objects_save_def)
next
  fix j
  assume "j < length (objects_save rows new)"
  then have j: "j < length rows" by (simp add: objects_save_def)
  have d: "distinct (map pk rows)" using assms(1) by (simp add: pk_unique_def)
  have "(pk (rows ! j) = pk new) = (j = i)"
    using nth_eq_iff_index_eq[OF d, of j i] j assms(2,3,4) by simp
  then show "objects_save rows new ! j = rows[i := new] ! j"
    using j assms(2) by (auto simp: objects_save_def nth_list_update)
qed

lemma download_file_db_existing:
  assumes "objects_filter_first (db st) (institution_code s) url = Some ex"
  shows "db (fst (snd (download_file H s e url name overwrite st))) =
     (case fst (make_request s (get_result e) url True) of
        Inr (Some r) \<Rightarrow>
          (if fst (etag_probe s e url (Some ex) overwrite) = None
              \<and> body_error r = None
              \<and> (overwrite \<or> hash_value ex \<noteq> calculate_hash H (concat (body_chunks r)))
              \<and> db_write_error e = None
           then (case storage_save e
                        (path_join (scraped_files_dir s)
                           [institution_code s,
                            case name of None \<Rightarrow> default_file_name e url | Some f \<Rightarrow> f])
                        (concat (body_chunks r)) of
                   Inr fp \<Rightarrow>
                     objects_save (db st)
                       (ex\<lparr>file_path := fp, file_size := length (concat (body_chunks r)),
                           mime_type := get_mime_type
                             (case name of None \<Rightarrow> default_file_name e url | Some f \<Rightarrow> f),
                           hash_value := calculate_hash H (concat (body_chunks r)),
                           last_updated := now e\<rparr>)
                 | Inl x \<Rightarrow> db st)
           else db st)
      | _ \<Rightarrow> db st)"
proof -
  obtain res evs where mr: "make_request s (get_result e) url True = (res, evs)"
    by (cases "make_request s (get_result e) url True")
  obtain po pevs where pr: "etag_probe s e url (Some ex) overwrite = (po, pevs)"
    by (cases "etag_probe s e url (Some ex) overwrite")
  show ?thesis
    unfolding download_file_def Let_def assms download_try_cases mr pr store_and_commit_def
      commit_record_def
    by (auto split: sum.splits option.splits)
qed

lemma download_file_db_new:
  assumes "objects_filter_first (db st) (institution_code s) url = None"
  shows "db (fst (snd (download_file H s e url name overwrite st))) =
     (case fst (make_request s (get_result e) url True) of
        Inr (Some r) \<Rightarrow>
          (if body_error r = None \<and> db_write_error e = None
           then (case storage_save e
                        (path_join (scraped_files_dir s)
                           [institution_code s,
                            case name of None \<Rightarrow> default_file_name e url | Some f \<Rightarrow> f])
                        (concat (body_chunks r)) of
                   Inr fp \<Rightarrow>
                     db st @ [\<lparr>pk = next_pk (db st), institution = institution_code s,
                            original_url = url, file_path = fp,
                            file_name = (case name of None \<Rightarrow> default_file_name e url | Some f \<Rightarrow> f),
                            file_size = length (concat (body_chunks r)),
                            mime_type = get_mime_type
                              (case name of None \<Rightarrow> default_file_name e url | Some f \<Rightarrow> f),
                            hash_value = calculate_hash H (concat (body_chunks r)),
                            date_created = now e, last_updated = now e\<rparr>]
                 | Inl x \<Rightarrow> db st)
           else db st)
      | _ \<Rightarrow> db st)"
proof -
  obtain res evs where mr: "make_request s (get_result e) url True = (res, evs)"
    by (cases "make_request s (get_result e) url True")
  show ?thesis
    unfolding download_file_def Let_def assms download_try_cases mr store_and_commit_def
      commit_record_def etag_probe_def objects_create_def
    by (auto split: sum.splits option.splits)
qed

text \<open>
  Claim C1. Let the table have one row for a primary key and one row for a pair of
  institution and URL. Then it has one row for a pair after any sequence of calls.

  A call of \<^verbatim>\<open>download_file\<close> for a pair that has a row leaves the number of rows,
  their keys and their pairs as they are. The table after the call is the table
  before it with the row found replaced, at its own position, by itself with the path
  that the storage returned, the size and the digest of the bytes downloaded, the MIME
  type of the file name and the time of the call as time of update, when the call
  did not return from the \<^verbatim>\<open>ETag\<close> block, the body arrived, \<^verbatim>\<open>overwrite\<close> is set or
  the digest differs from the stored hash, and the write to the storage and to the
  table succeeded; it is the table before the call otherwise.

  A call for a pair that has no row appends exactly one row, for that pair, with the
  same fields and the time of the call as time of creation, when the body arrived and
  both writes succeeded, and then it returns the path; otherwise the table is the one
  before the call.
\<close>

theorem one_record_per_url:
  assumes "pk_unique (db st)" and "unique_together (db st)"
  shows "unique_together (db (run_calls H s cs st))
       \<and> (\<forall>ex. objects_filter_first (db st) (institution_code s) url = Some ex
            \<longrightarrow> length (db (fst (snd (download_file H s e url name overwrite st)))) = length (db st)
              \<and> map key_of (db (fst (snd (download_file H s e url name overwrite st)))) = map key_of (db st)
              \<and> map pk (db (fst (snd (download_file H s e url name overwrite st)))) = map pk (db st)
              \<and> db (fst (snd (download_file H s e url name overwrite st)))
                = (case fst (make_request s (get_result e) url True) of
                    Inr (Some r) \<Rightarrow>
                      (if fst (etag_probe s e url (Some ex) overwrite) = None
                          \<and> body_error r = None
                          \<and> (overwrite
                             \<or> hash_value ex \<noteq> calculate_hash H (concat (body_chunks r)))
                          \<and> db_write_error e = None
                       then (case storage_save e
                                    (path_join (scraped_files_dir s)
                                       [institution_code s,
                                        case name of None \<Rightarrow> default_file_name e url
                                        | Some f \<Rightarrow> f])
                                    (concat (body_chunks r)) of
                               Inr fp \<Rightarrow>
                                 objects_save (db st)
                                   (ex\<lparr>file_path := fp,
                                       file_size := length (concat (body_chunks r)),
                                       mime_type := get_mime_type
                                         (case name of None \<Rightarrow> default_file_name e url
                                          | Some f \<Rightarrow> f),
                                       hash_value := calculate_hash H (concat (body_chunks r)),
                                       last_updated := now e\<rparr>)
                             | Inl x \<Rightarrow> db st)
                       else db st)
                  | _ \<Rightarrow> db st)
              \<and> (\<exists>i < length (db st). db st ! i = ex
                    \<and> (\<forall>new. pk new = pk ex
                          \<longrightarrow> objects_save (db st) new = (db st)[i := new])))
       \<and> (objects_filter_first (db st) (institution_code s) url = None
            \<longrightarrow> ((fst (download_file H s e url name overwrite st) = None \<and> db (fst (snd (download_file H s e url name overwrite st))) = db st)
                 \<or> (\<exists>fp c. fst (download_file H s e url name overwrite st) = Some fp
                     \<and> db (fst (snd (download_file H s e url name overwrite st)))
                         = db st @ [\<lparr>pk = next_pk (db st), institution = institution_code s,
                            original_url = url, file_path = fp,
                            file_name = (case name of None \<Rightarrow> default_file_name e url | Some f \<Rightarrow> f),
                            file_size = length c,
                            mime_type = get_mime_type
                              (case name of None \<Rightarrow> default_file_name e url | Some f \<Rightarrow> f),
                            hash_value = calculate_hash H c,
                            date_created = now e, last_updated = now e\<rparr>]))
              \<and> db (fst (snd (download_file H s e url name overwrite st)))
                = (case fst (make_request s (get_result e) url True) of
                    Inr (Some r) \<Rightarrow>
                      (if body_error r = None \<and> db_write_error e = None
                       then (case storage_save e
                                    (path_join (scraped_files_dir s)
                                       [institution_code s,
                                        case name of None \<Rightarrow> default_file_name e url
                                        | Some f \<Rightarrow> f])
                                    (concat (body_chunks r)) of
                               Inr fp \<Rightarrow>
                                 db st @ [\<lparr>pk = next_pk (db st),
                                    institution = institution_code s,
                                    original_url = url, file_path = fp,
                                    file_name = (case name of None \<Rightarrow> default_file_name e url
                                                 | Some f \<Rightarrow> f),
                                    file_size = length (concat (body_chunks r)),
                                    mime_type = get_mime_type
                                      (case name of None \<Rightarrow> default_file_name e url
                                       | Some f \<Rightarrow> f),
                                    hash_value = calculate_hash H (concat (body_chunks r)),
                                    date_created = now e, last_updated = now e\<rparr>]
                             | Inl x \<Rightarrow> db st)
                       else db st)
                  | _ \<Rightarrow> db st))"
proof -
  have a: "unique_together (db (run_calls H s cs st))"
    using run_calls_inv[OF assms] by simp
  have b: "length (db (fst (snd (download_file H s e url name overwrite st)))) = length (db st)
              \<and> map key_of (db (fst (snd (download_file H s e url name overwrite st)))) = map key_of (db st)
              \<and> map pk (db (fst (snd (download_file H s e url name overwrite st)))) = map pk (db st)
              \<and> db (fst (snd (download_file H s e url name overwrite st)))
                = (case fst (make_request s (get_result e) url True) of
                    Inr (Some r) \<Rightarrow>
                      (if fst (etag_probe s e url (Some ex) overwrite) = None
                          \<and> body_error r = None
                          \<and> (overwrite
                             \<or> hash_value ex \<noteq> calculate_hash H (concat (body_chunks r)))
                          \<and> db_write_error e = None
                       then (case storage_save e
                                    (path_join (scraped_files_dir s)
                                       [institution_code s,
                                        case name of None \<Rightarrow> default_file_name e url
                                        | Some f \<Rightarrow> f])
                                    (concat (body_chunks r)) of
                               Inr fp \<Rightarrow>
                                 objects_save (db st)
                                   (ex\<lparr>file_path := fp,
                                       file_size := length (concat (body_chunks r)),
                                       mime_type := get_mime_type
                                         (case name of None \<Rightarrow> default_file_name e url
                                          | Some f \<Rightarrow> f),
                                       hash_value := calculate_hash H (concat (body_chunks r)),
                                       last_updated := now e\<rparr>)
                             | Inl x \<Rightarrow> db st)
                       else db st)
                  | _ \<Rightarrow> db st)
              \<and> (\<exists>i < length (db st). db st ! i = ex
                    \<and> (\<forall>new. pk new = pk ex
                          \<longrightarrow> objects_save (db st) new = (db st)[i := new]))"
    if ex: "objects_filter_first (db st) (institution_code s) url = Some ex" for ex
  proof -
    note d = download_file_existing[OF assms(1) ex, of H e name overwrite]
    from d have "length (map pk (db (fst (snd (download_file H s e url name overwrite st))))) = length (map pk (db st))" by simp
    then have l: "length (db (fst (snd (download_file H s e url name overwrite st)))) = length (db st)" by simp
    from filter_first_Some[OF ex] obtain i where i: "i < length (db st)" "db st ! i = ex"
      by (auto simp: in_set_conv_nth)
    have p: "\<exists>i < length (db st). db st ! i = ex
                    \<and> (\<forall>new. pk new = pk ex
                          \<longrightarrow> objects_save (db st) new = (db st)[i := new])"
      using i objects_save_in_place[OF assms(1) i] by blast
    from d l p download_file_db_existing[OF ex, of H e name overwrite] show ?thesis by blast
  qed
  have c: "((fst (download_file H s e url name overwrite st) = None \<and> db (fst (snd (download_file H s e url name overwrite st))) = db st)
                 \<or> (\<exists>fp c. fst (download_file H s e url name overwrite st) = Some fp
                     \<and> db (fst (snd (download_file H s e url name overwrite st)))
                         = db st @ [\<lparr>pk = next_pk (db st), institution = institution_code s,
                            original_url = url, file_path = fp,
                            file_name = (case name of None \<Rightarrow> default_file_name e url | Some f \<Rightarrow> f),
                            file_size = length c,
                            mime_type = get_mime_type
                              (case name of None \<Rightarrow> default_file_name e url | Some f \<Rightarrow> f),
                            hash_value = calculate_hash H c,
                            date_created = now e, last_updated = now e\<rparr>]))
              \<and> db (fst (snd (download_file H s e url name overwrite st)))
                = (case fst (make_request s (get_result e) url True) of
                    Inr (Some r) \<Rightarrow>
                      (if body_error r = None \<and> db_write_error e = None
                       then (case storage_save e
                                    (path_join (scraped_files_dir s)
                                       [institution_code s,
                                        case name of None \<Rightarrow> default_file_name e url
                                        | Some f \<Rightarrow> f])
                                    (concat (body_chunks r)) of
                               Inr fp \<Rightarrow>
                                 db st @ [\<lparr>pk = next_pk (db st),
                                    institution = institution_code s,
                                    original_url = url, file_path = fp,
                                    file_name = (case name of None \<Rightarrow> default_file_name e url
                                                 | Some f \<Rightarrow> f),
                                    file_size = length (concat (body_chunks r)),
                                    mime_type = get_mime_type
                                      (case name of None \<Rightarrow> default_file_name e url
                                       | Some f \<Rightarrow> f),
                                    hash_value = calculate_hash H (concat (body_chunks r)),
                                    date_created = now e, last_updated = now e\<rparr>]
                             | Inl x \<Rightarrow> db st)
                       else db st)
                  | _ \<Rightarrow> db st)"
    if none: "objects_filter_first (db st) (institution_code s) url = None"
    using download_file_new[OF none, of H e name overwrite]
      download_file_db_new[OF none, of H e name overwrite] by blast
  show ?thesis using a b c by blast
qed

text \<open>
  Two downloads of a URL into an empty table, the second with other content and at a
  later time: one row, with the key and the time of creation of the first download
  and the size, the hash and the time of update of the second.
\<close>

theorem one_record_per_url_witness:
  "unique_together (db (run_calls toy_digest (default_scraper ''BNB'' ''scraped'')
       [DownloadFile ''u'' None False (ok_env [[1, 2], [3]]),
        DownloadFile ''u'' None False ((ok_env [[4]])\<lparr>now := 9\<rparr>)]
       \<lparr>db = [], stats = init_stats 0\<rparr>))
   \<and> db (run_calls toy_digest (default_scraper ''BNB'' ''scraped'')
       [DownloadFile ''u'' None False (ok_env [[1, 2], [3]]),
        DownloadFile ''u'' None False ((ok_env [[4]])\<lparr>now := 9\<rparr>)]
       \<lparr>db = [], stats = init_stats 0\<rparr>)
     = [\<lparr>pk = 1, institution = ''BNB'', original_url = ''u'',
         file_path = ''scraped/BNB/a.csv'', file_name = ''a.csv'', file_size = 1,
         mime_type = get_mime_type ''a.csv'', hash_value = toy_digest [4],
         date_created = 7, last_updated = 9\<rparr>]"
proof -
  let ?s = "default_scraper ''BNB'' ''scraped''"
  let ?st = "\<lparr>db = [], stats = init_stats 0\<rparr>"
  have h1: "pk_unique (db ?st)" by (simp add: pk_unique_def)
  have h2: "unique_together (db ?st)" by (simp add: unique_together_def)
  have ev: "db (run_calls toy_digest ?s
       [DownloadFile ''u'' None False (ok_env [[1, 2], [3]]),
        DownloadFile ''u'' None False ((ok_env [[4]])\<lparr>now := 9\<rparr>)] ?st)
     = [\<lparr>pk = 1, institution = ''BNB'', original_url = ''u'',
         file_path = ''scraped/BNB/a.csv'', file_name = ''a.csv'', file_size = 1,
         mime_type = get_mime_type ''a.csv'', hash_value = toy_digest [4],
         date_created = 7, last_updated = 9\<rparr>]"
    by (simp add: download_file_def download_try_cases make_request_first_ok ok_env_def
        quiet_env_def Let_def ok_response_def default_scraper_def attempt_result_def
        raise_for_status_def etag_probe_def objects_filter_first_def store_and_commit_def
        commit_record_def objects_create_def objects_save_def path_join.simps
        default_file_name_def next_pk_def calculate_hash_def sha256_new_def toy_digest_def)
  from one_record_per_url[OF h1 h2, of toy_digest ?s] ev show ?thesis by blast
qed

end
